theory Spec2Isabelle
  imports Complex_Main "HOL-Library.AList"
begin

section \<open>Python values, exceptions and outcomes\<close>

text \<open>
  The exceptions the orchestration layer can raise. \<open>ReError\<close> is Python's \<open>re.error\<close>,
  \<open>OtherException\<close> stands for every other subclass of \<open>Exception\<close> (a \<open>KeyError\<close> of
  \<open>from_dict\<close>, an \<open>aiohttp.ClientError\<close>, a JSON decoding error).
\<close>

datatype exception =
  ZeroDivisionError | ValueError | OverflowError | ReError | OpenTextAPIError | OtherException

text \<open>
  What awaiting a coroutine gives: it returns a value, it raises, or it is still suspended
  when the clock readings given to the model are used up (\<open>Blocked\<close>).
\<close>

datatype 'a outcome = Returned 'a | Raised exception | Blocked

text \<open>
  The values a cache entry or a JSON body can hold. The clock of the cache
  (\<open>time.time()\<close>) and the numbers inside JSON bodies are modelled as exact real numbers.
\<close>

datatype pyval =
    PNone
  | PBool bool
  | PInt int
  | PFloat real
  | PStr string
  | PList "pyval list"
  | PDict "(string \<times> pyval) list"

text \<open>Python's truth value of an object, as tested by \<open>if cached_result:\<close>.\<close>

fun truthy :: "pyval \<Rightarrow> bool" where
  "truthy PNone = False"
| "truthy (PBool b) = b"
| "truthy (PInt i) = (i \<noteq> 0)"
| "truthy (PFloat x) = (x \<noteq> 0)"
| "truthy (PStr s) = (s \<noteq> [])"
| "truthy (PList xs) = (xs \<noteq> [])"
| "truthy (PDict kvs) = (kvs \<noteq> [])"

section \<open>Python floats\<close>

text \<open>
  The rate limiter computes with Python floats (IEEE doubles). A float is a finite
  number, an infinity or NaN; the two zeros are not told apart, since no operation of the
  limiter depends on the sign of a zero. Every arithmetic operation rounds its exact
  result to a double: the rounding is the parameter \<open>rnd\<close> of the operations below, a
  function from the exact result to the float that is stored (an infinity where the
  result overflows). Nothing is assumed about \<open>rnd\<close>, so what is proved holds for the
  rounding of doubles in particular.
\<close>

datatype pyfloat = Finite real | PosInf | NegInf | NaN

type_synonym rounding = "real \<Rightarrow> pyfloat"

text \<open>The comparisons \<open>a < b\<close>, \<open>a == b\<close> and \<open>a <= b\<close>: false whenever an operand is NaN.\<close>

fun fl_less :: "pyfloat \<Rightarrow> pyfloat \<Rightarrow> bool" where
  "fl_less NaN b = False"
| "fl_less a NaN = False"
| "fl_less (Finite x) (Finite y) = (x < y)"
| "fl_less (Finite x) PosInf = True"
| "fl_less (Finite x) NegInf = False"
| "fl_less PosInf b = False"
| "fl_less NegInf (Finite y) = True"
| "fl_less NegInf PosInf = True"
| "fl_less NegInf NegInf = False"

definition fl_eq :: "pyfloat \<Rightarrow> pyfloat \<Rightarrow> bool" where
  "fl_eq a b = (a = b \<and> a \<noteq> NaN)"

definition fl_le :: "pyfloat \<Rightarrow> pyfloat \<Rightarrow> bool" where
  "fl_le a b = (fl_less a b \<or> fl_eq a b)"

text \<open>Sum, difference, product and quotient (the divisor is not zero).\<close>

fun fl_neg :: "pyfloat \<Rightarrow> pyfloat" where
  "fl_neg (Finite x) = Finite (- x)"
| "fl_neg PosInf = NegInf"
| "fl_neg NegInf = PosInf"
| "fl_neg NaN = NaN"

fun fl_add :: "rounding \<Rightarrow> pyfloat \<Rightarrow> pyfloat \<Rightarrow> pyfloat" where
  "fl_add rnd NaN b = NaN"
| "fl_add rnd a NaN = NaN"
| "fl_add rnd (Finite x) (Finite y) = rnd (x + y)"
| "fl_add rnd (Finite x) b = b"
| "fl_add rnd a (Finite y) = a"
| "fl_add rnd PosInf PosInf = PosInf"
| "fl_add rnd NegInf NegInf = NegInf"
| "fl_add rnd PosInf NegInf = NaN"
| "fl_add rnd NegInf PosInf = NaN"

definition fl_sub :: "rounding \<Rightarrow> pyfloat \<Rightarrow> pyfloat \<Rightarrow> pyfloat" where
  "fl_sub rnd a b = fl_add rnd a (fl_neg b)"

text \<open>An infinity with the sign of \<open>x\<close>; zero times infinity is NaN.\<close>

definition signed_inf :: "real \<Rightarrow> pyfloat" where
  "signed_inf x = (if x = 0 then NaN else if 0 < x then PosInf else NegInf)"

fun fl_mul :: "rounding \<Rightarrow> pyfloat \<Rightarrow> pyfloat \<Rightarrow> pyfloat" where
  "fl_mul rnd NaN b = NaN"
| "fl_mul rnd a NaN = NaN"
| "fl_mul rnd (Finite x) (Finite y) = rnd (x * y)"
| "fl_mul rnd (Finite x) PosInf = signed_inf x"
| "fl_mul rnd (Finite x) NegInf = signed_inf (- x)"
| "fl_mul rnd PosInf (Finite y) = signed_inf y"
| "fl_mul rnd NegInf (Finite y) = signed_inf (- y)"
| "fl_mul rnd PosInf PosInf = PosInf"
| "fl_mul rnd NegInf NegInf = PosInf"
| "fl_mul rnd PosInf NegInf = NegInf"
| "fl_mul rnd NegInf PosInf = NegInf"

fun fl_div :: "rounding \<Rightarrow> pyfloat \<Rightarrow> pyfloat \<Rightarrow> pyfloat" where
  "fl_div rnd NaN b = NaN"
| "fl_div rnd a NaN = NaN"
| "fl_div rnd (Finite x) (Finite y) = rnd (x / y)"
| "fl_div rnd (Finite x) b = Finite 0"
| "fl_div rnd PosInf (Finite y) = signed_inf y"
| "fl_div rnd NegInf (Finite y) = signed_inf (- y)"
| "fl_div rnd a b = NaN"

text \<open>
  True division \<open>a / b\<close> of floats raises on a zero divisor; \<open>max(a, b)\<close> and \<open>min(a, b)\<close>
  keep their first argument unless the second is strictly greater (smaller).
\<close>

definition py_div :: "rounding \<Rightarrow> pyfloat \<Rightarrow> pyfloat \<Rightarrow> exception + pyfloat" where
  "py_div rnd a b = (if b = Finite 0 then Inl ZeroDivisionError else Inr (fl_div rnd a b))"

definition py_max :: "pyfloat \<Rightarrow> pyfloat \<Rightarrow> pyfloat" where
  "py_max a b = (if fl_less a b then b else a)"

definition py_min :: "pyfloat \<Rightarrow> pyfloat \<Rightarrow> pyfloat" where
  "py_min a b = (if fl_less b a then b else a)"

text \<open>
  \<open>int(x)\<close> on a float truncates towards zero; it raises \<open>OverflowError\<close> on an infinity
  and \<open>ValueError\<close> on NaN.
\<close>

definition trunc :: "real \<Rightarrow> int" where
  "trunc x = (if 0 \<le> x then \<lfloor>x\<rfloor> else \<lceil>x\<rceil>)"

fun py_int :: "pyfloat \<Rightarrow> exception + int" where
  "py_int (Finite x) = Inr (trunc x)"
| "py_int PosInf = Inl OverflowError"
| "py_int NegInf = Inl OverflowError"
| "py_int NaN = Inl ValueError"

text \<open>
  The conversion of an \<open>int\<close> operand of a float operation: the nearest double, and
  \<open>OverflowError\<close> when the integer is too large for one.
\<close>

definition float_of_int :: "rounding \<Rightarrow> int \<Rightarrow> exception + pyfloat" where
  "float_of_int rnd n =
     (case rnd (real_of_int n) of
        Finite x \<Rightarrow> Inr (Finite x)
      | PosInf \<Rightarrow> Inl OverflowError
      | NegInf \<Rightarrow> Inl OverflowError
      | NaN \<Rightarrow> Inl OverflowError)"

section \<open>The token bucket (\<open>app/utils/rate_limiter.py\<close>)\<close>

text \<open>
  The state of a \<open>RateLimiter\<close>. The rate is a float (a caller that passes the integer
  \<open>10\<close> gets the arithmetic of \<open>10.0\<close>), the token counts are Python integers, and
  \<open>last_refill\<close> is a \<open>datetime\<close>: a whole number of microseconds.
\<close>

record RateLimiter =
  requests_per_second :: pyfloat
  max_tokens :: int
  current_tokens :: int
  last_refill :: "int option"

text \<open>
  \<open>RateLimiter.__init__\<close>: no argument is checked. \<open>burst_capacity or int(requests_per_second)\<close>
  takes the second operand when the first is \<open>None\<close> or \<open>0\<close>, and \<open>int\<close> raises on a rate
  that is infinite or NaN.
\<close>

definition RateLimiter_init :: "pyfloat \<Rightarrow> int option \<Rightarrow> exception + RateLimiter" where
  "RateLimiter_init rps burst_capacity =
     (case (case burst_capacity of
              None \<Rightarrow> py_int rps
            | Some b \<Rightarrow> if b \<noteq> 0 then Inr b else py_int rps) of
        Inl e \<Rightarrow> Inl e
      | Inr mt \<Rightarrow> Inr \<lparr>requests_per_second = rps, max_tokens = mt, current_tokens = mt,
                       last_refill = None\<rparr>)"

text \<open>
  \<open>timedelta.total_seconds()\<close> of a difference of \<open>d\<close> microseconds: the quotient by
  \<open>10**6\<close>, rounded to a float.
\<close>

definition total_seconds :: "rounding \<Rightarrow> int \<Rightarrow> pyfloat" where
  "total_seconds rnd d = rnd (real_of_int d / 1000000)"

text \<open>
  \<open>_refill_tokens\<close>; \<open>now\<close> is the reading of \<open>datetime.now()\<close> the call makes. The product
  \<open>elapsed * self.requests_per_second\<close> is a float product, and \<open>int(tokens_to_add)\<close> raises
  before anything is assigned when the product is infinite.
\<close>

definition refill_tokens :: "rounding \<Rightarrow> int \<Rightarrow> 'a RateLimiter_scheme \<Rightarrow> unit outcome \<times> 'a RateLimiter_scheme" where
  "refill_tokens rnd now s =
     (case last_refill s of
        None \<Rightarrow> (Returned (), s\<lparr>last_refill := Some now\<rparr>)
      | Some t \<Rightarrow>
          (let elapsed = total_seconds rnd (now - t);
               tokens_to_add = fl_mul rnd elapsed (requests_per_second s)
           in if fl_le (Finite 1) tokens_to_add
              then (case py_int tokens_to_add of
                      Inl e \<Rightarrow> (Raised e, s)
                    | Inr k \<Rightarrow>
                        (Returned (),
                         s\<lparr>current_tokens := min (max_tokens s) (current_tokens s + k),
                           last_refill := Some now\<rparr>))
              else (Returned (), s)))"

text \<open>
  \<open>acquire\<close>: the \<open>while\<close> loop sleeps and refills until enough tokens are there. Each
  turn of the loop reads the clock once (in \<open>_refill_tokens\<close>, after the sleep); the model
  takes these readings as the list \<open>nows\<close>, and a loop that is still short of tokens when
  the readings are used up is \<open>Blocked\<close>. The division \<open>tokens_needed / rate\<close> converts the
  integer to a float and raises when the rate is zero; an exception of the refill leaves
  the loop.
\<close>

fun acquire :: "rounding \<Rightarrow> int \<Rightarrow> int list \<Rightarrow> 'a RateLimiter_scheme \<Rightarrow> unit outcome \<times> 'a RateLimiter_scheme" where
  "acquire rnd tokens nows s =
     (if current_tokens s < tokens then
        (let tokens_needed = tokens - current_tokens s in
         case float_of_int rnd tokens_needed of
           Inl e \<Rightarrow> (Raised e, s)
         | Inr needed \<Rightarrow>
             (case py_div rnd needed (requests_per_second s) of
                Inl e \<Rightarrow> (Raised e, s)
              | Inr wait_time \<Rightarrow>
                  (case nows of
                     [] \<Rightarrow> (Blocked, s)
                   | now # rest \<Rightarrow>
                       (case refill_tokens rnd now s of
                          (Returned u, s') \<Rightarrow> acquire rnd tokens rest s'
                        | (Raised e, s') \<Rightarrow> (Raised e, s')
                        | (Blocked, s') \<Rightarrow> (Blocked, s')))))
      else (Returned (), s\<lparr>current_tokens := current_tokens s - tokens\<rparr>))"

declare acquire.simps [simp del]

definition try_acquire :: "rounding \<Rightarrow> int \<Rightarrow> int \<Rightarrow> 'a RateLimiter_scheme \<Rightarrow> bool outcome \<times> 'a RateLimiter_scheme" where
  "try_acquire rnd tokens now s =
     (case refill_tokens rnd now s of
        (Returned u, s1) \<Rightarrow>
          if current_tokens s1 \<ge> tokens
          then (Returned True, s1\<lparr>current_tokens := current_tokens s1 - tokens\<rparr>)
          else (Returned False, s1)
      | (Raised e, s1) \<Rightarrow> (Raised e, s1)
      | (Blocked, s1) \<Rightarrow> (Blocked, s1))"

definition reset :: "int \<Rightarrow> 'a RateLimiter_scheme \<Rightarrow> 'a RateLimiter_scheme" where
  "reset now s = s\<lparr>current_tokens := max_tokens s, last_refill := Some now\<rparr>"

subsection \<open>The adaptive limiter\<close>

record ResponseSample =
  timestamp :: real
  status_code :: int
  response_time :: pyfloat
  is_error :: bool

record AdaptiveRateLimiter = RateLimiter +
  min_requests_per_second :: pyfloat
  max_requests_per_second :: pyfloat
  adaptation_factor :: pyfloat
  recent_responses :: "ResponseSample list"
  max_response_history :: nat

text \<open>
  \<open>AdaptiveRateLimiter.__init__\<close>: \<open>super().__init__(initial_requests_per_second)\<close> with no
  burst capacity, then the bounds and the factor are stored as given.
\<close>

definition AdaptiveRateLimiter_init :: "pyfloat \<Rightarrow> pyfloat \<Rightarrow> pyfloat \<Rightarrow> pyfloat \<Rightarrow> exception + AdaptiveRateLimiter" where
  "AdaptiveRateLimiter_init initial_requests_per_second min_rps max_rps factor =
     (case RateLimiter_init initial_requests_per_second None of
        Inl e \<Rightarrow> Inl e
      | Inr base \<Rightarrow>
          Inr (RateLimiter.extend base
                 \<lparr>min_requests_per_second = min_rps, max_requests_per_second = max_rps,
                  adaptation_factor = factor, recent_responses = [],
                  max_response_history = 100\<rparr>))"

text \<open>
  The \<open>if\<close>/\<open>elif\<close> chain of \<open>_adjust_rate\<close>; \<open>None\<close> is the branch that returns early. The
  literals \<open>2\<close>, \<open>1\<close>, \<open>0.5\<close>, \<open>5.0\<close> and \<open>1.0\<close> are doubles as they stand; \<open>0.2\<close> is the double
  nearest to one fifth.
\<close>

definition proposed_rate :: "rounding \<Rightarrow> int \<Rightarrow> pyfloat \<Rightarrow> bool \<Rightarrow> AdaptiveRateLimiter \<Rightarrow> pyfloat option" where
  "proposed_rate rnd status rtime err s =
     (if status = 429
        then Some (fl_mul rnd (requests_per_second s)
                     (fl_sub rnd (Finite 1) (fl_mul rnd (adaptation_factor s) (Finite 2))))
      else if err
        then Some (fl_mul rnd (requests_per_second s)
                     (fl_sub rnd (Finite 1) (adaptation_factor s)))
      else if fl_less (Finite 5) rtime
        then Some (fl_mul rnd (requests_per_second s)
                     (fl_sub rnd (Finite 1) (fl_mul rnd (adaptation_factor s) (Finite (1/2)))))
      else if status = 200 \<and> fl_less rtime (Finite 1)
        then Some (fl_mul rnd (requests_per_second s)
                     (fl_add rnd (Finite 1) (fl_mul rnd (adaptation_factor s) (rnd (2/10)))))
      else None)"

text \<open>
  \<open>_adjust_rate\<close>: the new rate is assigned first, so an \<open>int(new_rate)\<close> that raises
  leaves the new rate with the old capacity.
\<close>

definition adjust_rate :: "rounding \<Rightarrow> int \<Rightarrow> pyfloat \<Rightarrow> bool \<Rightarrow> AdaptiveRateLimiter \<Rightarrow> unit outcome \<times> AdaptiveRateLimiter" where
  "adjust_rate rnd status rtime err s =
     (let old_rate = requests_per_second s in
      case proposed_rate rnd status rtime err s of
        None \<Rightarrow> (Returned (), s)
      | Some r \<Rightarrow>
          (let new_rate = py_max (min_requests_per_second s) (py_min (max_requests_per_second s) r)
           in if \<not> fl_eq new_rate old_rate
              then (case py_int new_rate of
                      Inl e \<Rightarrow> (Raised e, s\<lparr>requests_per_second := new_rate\<rparr>)
                    | Inr k \<Rightarrow>
                        (Returned (), s\<lparr>requests_per_second := new_rate, max_tokens := k\<rparr>))
              else (Returned (), s)))"

text \<open>
  \<open>record_response\<close>; \<open>ts\<close> is the reading of \<open>time.time()\<close> stored in the sample. The
  history drops its oldest sample once it is longer than \<open>_max_response_history\<close>.
\<close>

definition record_response :: "rounding \<Rightarrow> real \<Rightarrow> int \<Rightarrow> pyfloat \<Rightarrow> bool \<Rightarrow> AdaptiveRateLimiter \<Rightarrow> unit outcome \<times> AdaptiveRateLimiter" where
  "record_response rnd ts status rtime err s =
     (let response_data = \<lparr>timestamp = ts, status_code = status, response_time = rtime,
                            is_error = err\<rparr>;
          hist = recent_responses s @ [response_data];
          hist' = (if length hist > max_response_history s then tl hist else hist)
      in adjust_rate rnd status rtime err (s\<lparr>recent_responses := hist'\<rparr>))"

subsection \<open>Sequences of limiter calls\<close>

text \<open>
  One call on a limiter, with the clock readings it makes, and what the caller gets back:
  \<open>acquire\<close>, \<open>reset\<close> and \<open>record_response\<close> return \<open>None\<close>, \<open>try_acquire\<close> a boolean.
\<close>

datatype base_op = Acquire int "int list" | TryAcquire int int | Reset int

fun base_step :: "rounding \<Rightarrow> base_op \<Rightarrow> 'a RateLimiter_scheme \<Rightarrow> pyval outcome \<times> 'a RateLimiter_scheme" where
  "base_step rnd (Acquire n nows) s =
     (case acquire rnd n nows s of
        (Returned u, s') \<Rightarrow> (Returned PNone, s')
      | (Raised e, s') \<Rightarrow> (Raised e, s')
      | (Blocked, s') \<Rightarrow> (Blocked, s'))"
| "base_step rnd (TryAcquire n now) s =
     (case try_acquire rnd n now s of
        (Returned b, s') \<Rightarrow> (Returned (PBool b), s')
      | (Raised e, s') \<Rightarrow> (Raised e, s')
      | (Blocked, s') \<Rightarrow> (Blocked, s'))"
| "base_step rnd (Reset now) s = (Returned PNone, reset now s)"

datatype adaptive_op = Base base_op | RecordResponse real int pyfloat bool

fun adaptive_step :: "rounding \<Rightarrow> adaptive_op \<Rightarrow> AdaptiveRateLimiter \<Rightarrow> pyval outcome \<times> AdaptiveRateLimiter" where
  "adaptive_step rnd (Base b) s = base_step rnd b s"
| "adaptive_step rnd (RecordResponse ts status rtime err) s =
     (case record_response rnd ts status rtime err s of
        (Returned u, s') \<Rightarrow> (Returned PNone, s')
      | (Raised e, s') \<Rightarrow> (Raised e, s')
      | (Blocked, s') \<Rightarrow> (Blocked, s'))"

text \<open>Running a list of calls one after the other, collecting what each gives.\<close>

fun run :: "('op \<Rightarrow> 's \<Rightarrow> 'r \<times> 's) \<Rightarrow> 'op list \<Rightarrow> 's \<Rightarrow> 'r list \<times> 's" where
  "run step [] s = ([], s)"
| "run step (x # xs) s =
     (case step x s of (r, s') \<Rightarrow> (case run step xs s' of (rs, s'') \<Rightarrow> (r # rs, s'')))"

text \<open>The token counts a call asks for are not negative.\<close>

fun op_tokens :: "base_op \<Rightarrow> int" where
  "op_tokens (Acquire n nows) = n"
| "op_tokens (TryAcquire n now) = n"
| "op_tokens (Reset now) = 0"

definition bucket_inv :: "'a RateLimiter_scheme \<Rightarrow> bool" where
  "bucket_inv s = (0 \<le> current_tokens s \<and> current_tokens s \<le> max_tokens s)"

fun adaptive_op_tokens :: "adaptive_op \<Rightarrow> int" where
  "adaptive_op_tokens (Base b) = op_tokens b"
| "adaptive_op_tokens (RecordResponse ts status rtime err) = 0"

text \<open>
  The bounds of the adaptive limiter hold the rate; and the weaker invariant that survives
  \<open>record_response\<close>: no token count and no capacity is negative.
\<close>

definition rate_in_bounds :: "AdaptiveRateLimiter \<Rightarrow> bool" where
  "rate_in_bounds s = (fl_le (min_requests_per_second s) (requests_per_second s)
                       \<and> fl_le (requests_per_second s) (max_requests_per_second s))"

definition tokens_nonneg :: "AdaptiveRateLimiter \<Rightarrow> bool" where
  "tokens_nonneg s = (fl_le (Finite 0) (min_requests_per_second s) \<and> 0 \<le> current_tokens s
                      \<and> 0 \<le> max_tokens s)"

section \<open>The TTL cache (\<open>app/utils/cache_manager.py\<close>)\<close>

text \<open>
  \<open>CacheEntry\<close>; the field \<open>value\<close> of the source is \<open>entry_value\<close> here. The cache is a
  Python \<open>dict\<close>: an association list with distinct keys in insertion order.
\<close>

record CacheEntry =
  entry_value :: pyval
  expires_at :: real

type_synonym cache = "(string \<times> CacheEntry) list"

text \<open>\<open>get\<close>; \<open>now\<close> is the reading of \<open>time.time()\<close>. The absent marker is \<open>None\<close>.\<close>

definition cache_get :: "real \<Rightarrow> string \<Rightarrow> cache \<Rightarrow> pyval \<times> cache" where
  "cache_get now key c =
     (case map_of c key of
        None \<Rightarrow> (PNone, c)
      | Some entry \<Rightarrow>
          if expires_at entry \<le> now then (PNone, AList.delete key c)
          else (entry_value entry, c))"

definition cache_set :: "real \<Rightarrow> string \<Rightarrow> pyval \<Rightarrow> int \<Rightarrow> cache \<Rightarrow> cache" where
  "cache_set now key v ttl c =
     (let expires = now + real_of_int ttl;
          entry = \<lparr>entry_value = v, expires_at = expires\<rparr>
      in AList.update key entry c)"

definition cache_delete :: "string \<Rightarrow> cache \<Rightarrow> bool \<times> cache" where
  "cache_delete key c =
     (if map_of c key \<noteq> None then (True, AList.delete key c) else (False, c))"

text \<open>
  \<open>clear\<close>. Python's \<open>re\<close> module is not part of the repository: \<open>re_compile\<close> stands for
  \<open>re.compile\<close>, giving \<open>None\<close> where it raises \<open>re.error\<close> and otherwise the test
  \<open>regex.match(key)\<close> of the compiled pattern.
\<close>

definition cache_clear :: "(string \<Rightarrow> (string \<Rightarrow> bool) option) \<Rightarrow> string option \<Rightarrow> cache \<Rightarrow> (exception + nat) \<times> cache" where
  "cache_clear re_compile pattern c =
     (case pattern of
        None \<Rightarrow> (Inr (length c), [])
      | Some p \<Rightarrow>
          (case re_compile p of
             None \<Rightarrow> (Inl ReError, c)
           | Some regex_match \<Rightarrow>
               (let keys_to_delete = filter regex_match (map fst c)
                in (Inr (length keys_to_delete), fold AList.delete keys_to_delete c))))"

definition cache_exists :: "real \<Rightarrow> string \<Rightarrow> cache \<Rightarrow> bool \<times> cache" where
  "cache_exists now key c = (case cache_get now key c of (v, c') \<Rightarrow> (v \<noteq> PNone, c'))"

text \<open>\<open>touch\<close> reads the clock twice: for the expiry test and for the new expiry.\<close>

definition cache_touch :: "real \<Rightarrow> real \<Rightarrow> string \<Rightarrow> int \<Rightarrow> cache \<Rightarrow> bool \<times> cache" where
  "cache_touch now now' key ttl c =
     (case map_of c key of
        None \<Rightarrow> (False, c)
      | Some entry \<Rightarrow>
          if expires_at entry \<le> now then (False, c)
          else (True, AList.update key (entry\<lparr>expires_at := now' + real_of_int ttl\<rparr>) c))"

definition cache_get_keys :: "(string \<Rightarrow> (string \<Rightarrow> bool) option) \<Rightarrow> string option \<Rightarrow> cache \<Rightarrow> exception + string list" where
  "cache_get_keys re_compile pattern c =
     (case pattern of
        None \<Rightarrow> Inr (map fst c)
      | Some p \<Rightarrow>
          (case re_compile p of
             None \<Rightarrow> Inl ReError
           | Some regex_match \<Rightarrow> Inr (filter regex_match (map fst c))))"
section \<open>The request path (\<open>app/services/opentext_service.py\<close>)\<close>

text \<open>
  One call of \<open>session.request\<close>. The HTTP transport is outside the orchestration layer:
  \<open>transport\<close> maps the requests sent so far and the new request to what the call and
  \<open>response.json()\<close> give, an exception raised (\<open>Inl\<close>) or the status with the parsed body.
\<close>

record http_request =
  req_method :: string
  req_url :: string
  req_json :: pyval
  req_params :: pyval

type_synonym transport = "http_request list \<Rightarrow> http_request \<Rightarrow> exception + (int \<times> pyval)"

text \<open>
  The part of \<open>OpenTextService\<close> the request path works on. \<open>requests_sent\<close> is not a field
  of the source: it logs the requests handed to the transport, oldest first.
\<close>

record service =
  api_base_url :: string
  rate_limiter :: RateLimiter
  cache_manager :: cache
  requests_sent :: "http_request list"

text \<open>
  The clock readings one \<open>_make_request\<close> makes: \<open>time.time()\<close> in \<open>get\<close> and in \<open>set\<close>,
  \<open>datetime.now()\<close> in each turn of the loop of \<open>acquire\<close>.
\<close>

record request_clock =
  at_cache_get :: real
  at_acquire :: "int list"
  at_cache_set :: real

text \<open>\<open>method == 'GET' and cache_key\<close>: the key under which the request is cached, if any.\<close>

definition caching_key :: "string \<Rightarrow> string option \<Rightarrow> string option" where
  "caching_key method cache_key =
     (if method = ''GET''
      then (case cache_key of None \<Rightarrow> None | Some k \<Rightarrow> if k \<noteq> [] then Some k else None)
      else None)"

text \<open>
  \<open>_make_request\<close> from the rate limiting on (\<open>await self.rate_limiter.acquire()\<close> to the
  end). Whatever the transport raises, and a status of 400 or more, leaves the \<open>try\<close> block
  as \<open>OpenTextAPIError\<close>; an exception of \<open>acquire\<close> is raised outside it and propagates.
\<close>

definition upstream_call :: "rounding \<Rightarrow> transport \<Rightarrow> request_clock \<Rightarrow> string \<Rightarrow> string \<Rightarrow> pyval \<Rightarrow> pyval \<Rightarrow> string option \<Rightarrow> int \<Rightarrow> service \<Rightarrow> pyval outcome \<times> service" where
  "upstream_call rnd transport clk method endpoint data params cache_key cache_ttl s =
     (case acquire rnd 1 (at_acquire clk) (rate_limiter s) of
        (Raised e, rl) \<Rightarrow> (Raised e, s\<lparr>rate_limiter := rl\<rparr>)
      | (Blocked, rl) \<Rightarrow> (Blocked, s\<lparr>rate_limiter := rl\<rparr>)
      | (Returned u, rl) \<Rightarrow>
          (let url = api_base_url s @ endpoint;
               req = \<lparr>req_method = method, req_url = url, req_json = data, req_params = params\<rparr>;
               s1 = s\<lparr>rate_limiter := rl, requests_sent := requests_sent s @ [req]\<rparr>
           in case transport (requests_sent s) req of
                Inl e \<Rightarrow> (Raised OpenTextAPIError, s1)
              | Inr (status, response_data) \<Rightarrow>
                  if status \<ge> 400 then (Raised OpenTextAPIError, s1)
                  else (case caching_key method cache_key of
                          Some key \<Rightarrow>
                            (Returned response_data,
                             s1\<lparr>cache_manager := cache_set (at_cache_set clk) key response_data
                                   cache_ttl (cache_manager s1)\<rparr>)
                        | None \<Rightarrow> (Returned response_data, s1))))"

text \<open>\<open>_make_request\<close>: the cache is asked first, and its answer is used when it is truthy.\<close>

definition make_request :: "rounding \<Rightarrow> transport \<Rightarrow> request_clock \<Rightarrow> string \<Rightarrow> string \<Rightarrow> pyval \<Rightarrow> pyval \<Rightarrow> string option \<Rightarrow> int \<Rightarrow> service \<Rightarrow> pyval outcome \<times> service" where
  "make_request rnd transport clk method endpoint data params cache_key cache_ttl s =
     (case caching_key method cache_key of
        Some key \<Rightarrow>
          (case cache_get (at_cache_get clk) key (cache_manager s) of
             (cached_result, c') \<Rightarrow>
               if truthy cached_result
               then (Returned cached_result, s\<lparr>cache_manager := c'\<rparr>)
               else upstream_call rnd transport clk method endpoint data params cache_key cache_ttl
                      (s\<lparr>cache_manager := c'\<rparr>))
      | None \<Rightarrow> upstream_call rnd transport clk method endpoint data params cache_key cache_ttl s)"
section \<open>The batch operations\<close>

text \<open>
  \<open>asyncio.gather(*tasks, return_exceptions=True)\<close>: every task is awaited, and the list
  holds for each what it returned (\<open>Inr\<close>) or the exception it raised (\<open>Inl\<close>). The tasks of
  one batch are started in list order; the model runs them one after the other on the
  state of the service.
\<close>

fun gather :: "('i \<Rightarrow> 's \<Rightarrow> 'r \<times> 's) \<Rightarrow> 'i list \<Rightarrow> 's \<Rightarrow> 'r list \<times> 's" where
  "gather task [] s = ([], s)"
| "gather task (x # xs) s =
     (case task x s of (r, s1) \<Rightarrow> (case gather task xs s1 of (rs, s2) \<Rightarrow> (r # rs, s2)))"

text \<open>
  \<open>range(0, n, step)\<close>: a zero step raises \<open>ValueError\<close>, a negative one gives the empty
  range.
\<close>

definition py_range :: "nat \<Rightarrow> int \<Rightarrow> exception + nat list" where
  "py_range n step =
     (if step = 0 then Inl ValueError
      else if step < 0 then Inr []
      else Inr (map (\<lambda>k. k * nat step) [0 ..< (n + nat step - 1) div nat step]))"

text \<open>
  The inner \<open>for result in batch_results\<close>: an instance of the record class is appended,
  an exception is logged, \<open>None\<close> is passed over.
\<close>

fun collect :: "(exception + 'a option) list \<Rightarrow> 'a list \<Rightarrow> 'a list" where
  "collect [] acc = acc"
| "collect (Inr (Some a) # rs) acc = collect rs (acc @ [a])"
| "collect (Inl e # rs) acc = collect rs acc"
| "collect (Inr None # rs) acc = collect rs acc"

text \<open>The outer \<open>for i in range(0, len(ids), self.batch_size)\<close>, over the start indices.\<close>

fun batch_loop :: "('i \<Rightarrow> 's \<Rightarrow> (exception + 'a option) \<times> 's) \<Rightarrow> nat \<Rightarrow> 'i list \<Rightarrow> nat list \<Rightarrow> 'a list \<Rightarrow> 's \<Rightarrow> 'a list \<times> 's" where
  "batch_loop task bs ids [] acc s = (acc, s)"
| "batch_loop task bs ids (i # starts) acc s =
     (let batch_ids = take bs (drop i ids) in
      case gather task batch_ids s of
        (batch_results, s') \<Rightarrow> batch_loop task bs ids starts (collect batch_results acc) s')"

text \<open>
  The three batch operations. The per-item coroutine (\<open>self.get_account\<close>,
  \<open>self.get_fax_usage\<close>, \<open>self.get_porting_status\<close>) is a parameter: it returns the record,
  returns \<open>None\<close> (an \<open>OpenTextAPIError\<close> it caught) or raises.
\<close>

definition get_accounts_batch :: "('i \<Rightarrow> 's \<Rightarrow> (exception + 'a option) \<times> 's) \<Rightarrow> int \<Rightarrow> 'i list \<Rightarrow> 's \<Rightarrow> (exception + 'a list) \<times> 's" where
  "get_accounts_batch get_account batch_size account_ids s =
     (case py_range (length account_ids) batch_size of
        Inl e \<Rightarrow> (Inl e, s)
      | Inr starts \<Rightarrow>
          (case batch_loop get_account (nat batch_size) account_ids starts [] s of
             (accounts, s') \<Rightarrow> (Inr accounts, s')))"

definition sync_fax_usage :: "('i \<Rightarrow> 'd \<Rightarrow> 'd \<Rightarrow> 's \<Rightarrow> (exception + 'a option) \<times> 's) \<Rightarrow> int \<Rightarrow> 'i list \<Rightarrow> 'd \<Rightarrow> 'd \<Rightarrow> 's \<Rightarrow> (exception + 'a list) \<times> 's" where
  "sync_fax_usage get_fax_usage batch_size account_ids start_date end_date s =
     (case py_range (length account_ids) batch_size of
        Inl e \<Rightarrow> (Inl e, s)
      | Inr starts \<Rightarrow>
          (case batch_loop (\<lambda>account_id. get_fax_usage account_id start_date end_date)
                  (nat batch_size) account_ids starts [] s of
             (usage_records, s') \<Rightarrow> (Inr usage_records, s')))"

definition batch_porting_status :: "('i \<Rightarrow> 's \<Rightarrow> (exception + 'a option) \<times> 's) \<Rightarrow> int \<Rightarrow> 'i list \<Rightarrow> 's \<Rightarrow> (exception + 'a list) \<times> 's" where
  "batch_porting_status get_porting_status batch_size phone_numbers s =
     (case py_range (length phone_numbers) batch_size of
        Inl e \<Rightarrow> (Inl e, s)
      | Inr starts \<Rightarrow>
          (case batch_loop get_porting_status (nat batch_size) phone_numbers starts [] s of
             (porting_records, s') \<Rightarrow> (Inr porting_records, s')))"

subsection \<open>What the batch operations are compared with\<close>

text \<open>The records among the results of the tasks, and the results that are none.\<close>

fun succeeded :: "exception + 'a option \<Rightarrow> bool" where
  "succeeded (Inr (Some a)) = True"
| "succeeded r = False"

definition successes :: "(exception + 'a option) list \<Rightarrow> 'a list" where
  "successes rs = List.map_filter (\<lambda>r. case r of Inr (Some a) \<Rightarrow> Some a | _ \<Rightarrow> None) rs"

definition failures :: "(exception + 'a option) list \<Rightarrow> (exception + 'a option) list" where
  "failures rs = filter (\<lambda>r. \<not> succeeded r) rs"

text \<open>A task that also writes the item it is started on to a log, oldest first.\<close>

definition traced :: "('i \<Rightarrow> 's \<Rightarrow> 'r \<times> 's) \<Rightarrow> 'i \<Rightarrow> 's \<times> 'i list \<Rightarrow> 'r \<times> ('s \<times> 'i list)" where
  "traced task x sl =
     (case sl of (s, started) \<Rightarrow> (case task x s of (r, s') \<Rightarrow> (r, (s', started @ [x]))))"
section \<open>Properties of the token bucket\<close>

subsection \<open>Comparisons and conversions of floats\<close>

lemma fl_less_Finite [simp]: "fl_less (Finite x) (Finite y) = (x < y)"
  by simp

lemma fl_le_Finite [simp]: "fl_le (Finite x) (Finite y) = (x \<le> y)"
  by (auto simp: fl_le_def fl_eq_def)

lemma fl_le_not_NaN: "fl_le a b \<Longrightarrow> a \<noteq> NaN \<and> b \<noteq> NaN"
  by (cases a; cases b) (auto simp: fl_le_def fl_eq_def)

lemma fl_le_refl: "a \<noteq> NaN \<Longrightarrow> fl_le a a"
  by (simp add: fl_le_def fl_eq_def)

lemma fl_less_imp_le: "fl_less a b \<Longrightarrow> fl_le a b"
  by (simp add: fl_le_def)

lemma fl_le_trans: "fl_le a b \<Longrightarrow> fl_le b c \<Longrightarrow> fl_le a c"
  by (cases a; cases b; cases c) (auto simp: fl_le_def fl_eq_def)

lemma fl_le_one_cases:
  "fl_le (Finite 1) a \<Longrightarrow> (\<exists>x. a = Finite x \<and> 1 \<le> x) \<or> a = PosInf"
  by (cases a) (auto simp: fl_le_def fl_eq_def)

lemma trunc_floor: "0 \<le> x \<Longrightarrow> trunc x = \<lfloor>x\<rfloor>"
  by (simp add: trunc_def)

lemma trunc_nonneg: "0 \<le> x \<Longrightarrow> 0 \<le> trunc x"
  by (simp add: trunc_def)

lemma py_int_Inr: "py_int a = Inr k \<Longrightarrow> \<exists>x. a = Finite x \<and> k = trunc x"
  by (cases a) auto

lemma py_int_Inl: "py_int a = Inl e \<Longrightarrow> (e = OverflowError \<and> (a = PosInf \<or> a = NegInf)) \<or> (e = ValueError \<and> a = NaN)"
  by (cases a) auto

lemma float_of_int_Inl: "float_of_int rnd n = Inl e \<Longrightarrow> e = OverflowError"
  by (auto simp: float_of_int_def split: pyfloat.splits)

lemma py_max_ge: "a \<noteq> NaN \<Longrightarrow> fl_le a (py_max a b)"
  by (simp add: py_max_def fl_less_imp_le fl_le_refl)

lemma clamp_le:
  assumes "fl_le mn mx"
  shows "fl_le (py_max mn (py_min mx r)) mx"
proof -
  from assms have nn: "mn \<noteq> NaN" "mx \<noteq> NaN" using fl_le_not_NaN by blast+
  have m: "fl_le (py_min mx r) mx"
    using nn by (simp add: py_min_def fl_less_imp_le fl_le_refl)
  show ?thesis
    using m assms by (simp add: py_max_def)
qed

subsection \<open>The refill step\<close>

lemma refill_cases:
  obtains (first) "last_refill s = None"
      "refill_tokens rnd now s = (Returned (), s\<lparr>last_refill := Some now\<rparr>)"
  | (commit) t x where "last_refill s = Some t"
      "fl_mul rnd (total_seconds rnd (now - t)) (requests_per_second s) = Finite x" "1 \<le> x"
      "refill_tokens rnd now s
         = (Returned (), s\<lparr>current_tokens := min (max_tokens s) (current_tokens s + \<lfloor>x\<rfloor>),
                            last_refill := Some now\<rparr>)"
  | (overflow) t where "last_refill s = Some t"
      "fl_mul rnd (total_seconds rnd (now - t)) (requests_per_second s) = PosInf"
      "refill_tokens rnd now s = (Raised OverflowError, s)"
  | (keep) t where "last_refill s = Some t"
      "\<not> fl_le (Finite 1) (fl_mul rnd (total_seconds rnd (now - t)) (requests_per_second s))"
      "refill_tokens rnd now s = (Returned (), s)"
proof (cases "last_refill s")
  case None
  then show ?thesis using first by (simp add: refill_tokens_def)
next
  case (Some t)
  let ?a = "fl_mul rnd (total_seconds rnd (now - t)) (requests_per_second s)"
  show ?thesis
  proof (cases "fl_le (Finite 1) ?a")
    case False
    with Some show ?thesis using keep by (simp add: refill_tokens_def Let_def)
  next
    case True
    from fl_le_one_cases [OF True] show ?thesis
    proof
      assume "\<exists>x. ?a = Finite x \<and> 1 \<le> x"
      then obtain x where x: "?a = Finite x" "1 \<le> x" by blast
      with Some True show ?thesis
        using commit [of t x] by (simp add: refill_tokens_def Let_def trunc_floor)
    next
      assume "?a = PosInf"
      with Some True show ?thesis
        using overflow [of t] by (simp add: refill_tokens_def Let_def)
    qed
  qed
qed

lemma refill_not_blocked: "fst (refill_tokens rnd now s) \<noteq> Blocked"
  by (cases rule: refill_cases [where s = s and rnd = rnd and now = now]) simp_all

lemma refill_raised: "fst (refill_tokens rnd now s) = Raised e \<Longrightarrow> e = OverflowError"
  by (cases rule: refill_cases [where s = s and rnd = rnd and now = now]) simp_all

lemma refill_rps [simp]:
  "requests_per_second (snd (refill_tokens rnd now s)) = requests_per_second s"
  by (cases rule: refill_cases [where s = s and rnd = rnd and now = now]) simp_all

lemma refill_max [simp]: "max_tokens (snd (refill_tokens rnd now s)) = max_tokens s"
  by (cases rule: refill_cases [where s = s and rnd = rnd and now = now]) simp_all

lemma refill_more [simp]: "RateLimiter.more (snd (refill_tokens rnd now s)) = RateLimiter.more s"
  by (cases rule: refill_cases [where s = s and rnd = rnd and now = now]) simp_all

lemma refill_inv: "bucket_inv s \<Longrightarrow> bucket_inv (snd (refill_tokens rnd now s))"
proof (cases rule: refill_cases [where s = s and rnd = rnd and now = now])
  case (commit t x)
  assume "bucket_inv s"
  moreover have "0 \<le> \<lfloor>x\<rfloor>" using commit(3) by simp
  ultimately show ?thesis using commit(4) by (simp add: bucket_inv_def)
qed (simp_all add: bucket_inv_def)

subsection \<open>The loop of acquire\<close>

lemma acquire_enough:
  "\<not> current_tokens s < n \<Longrightarrow>
     acquire rnd n nows s = (Returned (), s\<lparr>current_tokens := current_tokens s - n\<rparr>)"
  by (subst acquire.simps) simp

lemma acquire_too_large:
  "current_tokens s < n \<Longrightarrow> float_of_int rnd (n - current_tokens s) = Inl e \<Longrightarrow>
     acquire rnd n nows s = (Raised e, s)"
  by (subst acquire.simps) simp

lemma acquire_zero_rate:
  "current_tokens s < n \<Longrightarrow> float_of_int rnd (n - current_tokens s) = Inr w \<Longrightarrow>
   requests_per_second s = Finite 0 \<Longrightarrow>
     acquire rnd n nows s = (Raised ZeroDivisionError, s)"
  by (subst acquire.simps) (simp add: py_div_def)

lemma acquire_no_reading:
  "current_tokens s < n \<Longrightarrow> float_of_int rnd (n - current_tokens s) = Inr w \<Longrightarrow>
   requests_per_second s \<noteq> Finite 0 \<Longrightarrow> acquire rnd n [] s = (Blocked, s)"
  by (subst acquire.simps) (simp add: py_div_def)

lemma acquire_sleep:
  "current_tokens s < n \<Longrightarrow> float_of_int rnd (n - current_tokens s) = Inr w \<Longrightarrow>
   requests_per_second s \<noteq> Finite 0 \<Longrightarrow>
     acquire rnd n (now # rest) s
       = (case refill_tokens rnd now s of
            (Returned u, s') \<Rightarrow> acquire rnd n rest s'
          | (Raised e, s') \<Rightarrow> (Raised e, s')
          | (Blocked, s') \<Rightarrow> (Blocked, s'))"
  by (subst acquire.simps) (simp add: py_div_def)

lemma acquire_cases:
  obtains (enough) "\<not> current_tokens s < n"
  | (large) e where "current_tokens s < n" "float_of_int rnd (n - current_tokens s) = Inl e"
  | (zero) w where "current_tokens s < n" "float_of_int rnd (n - current_tokens s) = Inr w"
      "requests_per_second s = Finite 0"
  | (wait) w where "current_tokens s < n" "float_of_int rnd (n - current_tokens s) = Inr w"
      "requests_per_second s \<noteq> Finite 0"
  by (cases "float_of_int rnd (n - current_tokens s)") blast+

lemma acquire_step:
  assumes "current_tokens s < n" "float_of_int rnd (n - current_tokens s) = Inr w"
    "requests_per_second s \<noteq> Finite 0"
  shows "(\<exists>u. refill_tokens rnd now s = (Returned u, snd (refill_tokens rnd now s))
            \<and> acquire rnd n (now # rest) s = acquire rnd n rest (snd (refill_tokens rnd now s)))
       \<or> (refill_tokens rnd now s = (Raised OverflowError, s)
            \<and> acquire rnd n (now # rest) s = (Raised OverflowError, s))"
  by (cases rule: refill_cases [where s = s and rnd = rnd and now = now]) (simp_all add: acquire_sleep [OF assms])

lemma acquire_preserves:
  assumes refill: "\<And>now s. P s \<Longrightarrow> P (snd (refill_tokens rnd now s))"
    and consume: "\<And>s. P s \<Longrightarrow> \<not> current_tokens s < n \<Longrightarrow> P (s\<lparr>current_tokens := current_tokens s - n\<rparr>)"
    and init: "P s"
  shows "P (snd (acquire rnd n nows s))"
  using init
proof (induction nows arbitrary: s)
  case Nil
  then show ?case
    by (cases rule: acquire_cases [where s = s and n = n and rnd = rnd])
       (simp_all add: acquire_enough acquire_too_large acquire_zero_rate acquire_no_reading consume)
next
  case (Cons now rest)
  show ?case
  proof (cases rule: acquire_cases [where s = s and n = n and rnd = rnd])
    case enough
    with Cons.prems show ?thesis by (simp add: acquire_enough consume)
  next
    case (large e)
    with Cons.prems show ?thesis by (simp add: acquire_too_large)
  next
    case (zero w)
    with Cons.prems show ?thesis by (simp add: acquire_zero_rate)
  next
    case (wait w)
    from acquire_step [OF wait, of now rest] show ?thesis
    proof (elim disjE conjE exE)
      fix u
      assume "acquire rnd n (now # rest) s = acquire rnd n rest (snd (refill_tokens rnd now s))"
      with Cons.IH [OF refill [OF Cons.prems]] show ?thesis by simp
    next
      assume "acquire rnd n (now # rest) s = (Raised OverflowError, s)"
      with Cons.prems show ?thesis by simp
    qed
  qed
qed

lemma acquire_rps [simp]:
  "requests_per_second (snd (acquire rnd n nows s)) = requests_per_second s"
  by (rule acquire_preserves [where P = "\<lambda>x. requests_per_second x = requests_per_second s"])
     simp_all

lemma acquire_max [simp]: "max_tokens (snd (acquire rnd n nows s)) = max_tokens s"
  by (rule acquire_preserves [where P = "\<lambda>x. max_tokens x = max_tokens s"]) simp_all

lemma acquire_more [simp]: "RateLimiter.more (snd (acquire rnd n nows s)) = RateLimiter.more s"
  by (rule acquire_preserves [where P = "\<lambda>x. RateLimiter.more x = RateLimiter.more s"]) simp_all

lemma acquire_inv: "bucket_inv s \<Longrightarrow> 0 \<le> n \<Longrightarrow> bucket_inv (snd (acquire rnd n nows s))"
  by (rule acquire_preserves [where P = bucket_inv]) (simp_all add: refill_inv, simp add: bucket_inv_def)

lemma acquire_raised:
  "fst (acquire rnd n nows s) = Raised e \<Longrightarrow>
     e = OverflowError \<or> (e = ZeroDivisionError \<and> requests_per_second s = Finite 0)"
proof (induction nows arbitrary: s)
  case Nil
  then show ?case
    by (cases rule: acquire_cases [where s = s and n = n and rnd = rnd])
       (auto simp: acquire_enough acquire_too_large acquire_zero_rate acquire_no_reading
             dest: float_of_int_Inl)
next
  case (Cons now rest)
  show ?case
  proof (cases rule: acquire_cases [where s = s and n = n and rnd = rnd])
    case enough
    with Cons.prems show ?thesis by (simp add: acquire_enough)
  next
    case (large e')
    with Cons.prems show ?thesis by (auto simp: acquire_too_large dest: float_of_int_Inl)
  next
    case (zero w)
    with Cons.prems show ?thesis by (simp add: acquire_zero_rate)
  next
    case (wait w)
    from acquire_step [OF wait, of now rest] show ?thesis
    proof (elim disjE conjE exE)
      fix u
      assume "acquire rnd n (now # rest) s = acquire rnd n rest (snd (refill_tokens rnd now s))"
      with Cons.prems have "fst (acquire rnd n rest (snd (refill_tokens rnd now s))) = Raised e"
        by simp
      from Cons.IH [OF this] show ?thesis by simp
    next
      assume "acquire rnd n (now # rest) s = (Raised OverflowError, s)"
      with Cons.prems show ?thesis by simp
    qed
  qed
qed

lemma fl_less_le_trans: "fl_less a b \<Longrightarrow> fl_le b c \<Longrightarrow> fl_less a c"
  by (cases a; cases b; cases c) (auto simp: fl_le_def fl_eq_def)

subsection \<open>try_acquire, reset and single calls\<close>

lemma try_acquire_preserves:
  assumes refill: "\<And>now s. P s \<Longrightarrow> P (snd (refill_tokens rnd now s))"
    and consume: "\<And>s. P s \<Longrightarrow> \<not> current_tokens s < n \<Longrightarrow> P (s\<lparr>current_tokens := current_tokens s - n\<rparr>)"
    and init: "P s"
  shows "P (snd (try_acquire rnd n now s))"
proof -
  have r: "P (snd (refill_tokens rnd now s))" by (rule refill [OF init])
  show ?thesis
  proof (cases "refill_tokens rnd now s")
    case (Pair out s1)
    with r have "P s1" by simp
    with Pair show ?thesis
      using consume [of s1] by (cases out) (auto simp: try_acquire_def)
  qed
qed

lemma try_acquire_raised: "fst (try_acquire rnd n now s) = Raised e \<Longrightarrow> e = OverflowError"
proof -
  assume a: "fst (try_acquire rnd n now s) = Raised e"
  obtain out s1 where p: "refill_tokens rnd now s = (out, s1)" by (cases "refill_tokens rnd now s")
  with a have "out = Raised e" by (cases out) (auto simp: try_acquire_def split: if_splits)
  with p refill_raised [of rnd now s e] show ?thesis by simp
qed

lemma base_step_snd:
  "snd (base_step rnd b s) =
     (case b of Acquire n nows \<Rightarrow> snd (acquire rnd n nows s)
      | TryAcquire n now \<Rightarrow> snd (try_acquire rnd n now s)
      | Reset now \<Rightarrow> reset now s)"
  by (cases b) (auto split: prod.splits outcome.splits)

lemma base_step_preserves:
  assumes refill: "\<And>now s. P s \<Longrightarrow> P (snd (refill_tokens rnd now s))"
    and consume: "\<And>s n. P s \<Longrightarrow> \<not> current_tokens s < n \<Longrightarrow> 0 \<le> n \<Longrightarrow> P (s\<lparr>current_tokens := current_tokens s - n\<rparr>)"
    and reset: "\<And>now s. P s \<Longrightarrow> P (reset now s)"
    and init: "P s" and nonneg: "0 \<le> op_tokens b"
  shows "P (snd (base_step rnd b s))"
proof (cases b)
  case (Acquire n nows)
  with nonneg have "0 \<le> n" by simp
  then have "P (snd (acquire rnd n nows s))"
    by (intro acquire_preserves [where P = P and n = n] refill consume init)
  with Acquire show ?thesis by (simp add: base_step_snd del: base_step.simps)
next
  case (TryAcquire n now)
  with nonneg have "0 \<le> n" by simp
  then have "P (snd (try_acquire rnd n now s))"
    by (intro try_acquire_preserves [where P = P and n = n] refill consume init)
  with TryAcquire show ?thesis by (simp add: base_step_snd del: base_step.simps)
next
  case (Reset now)
  with reset [OF init] show ?thesis by simp
qed

lemma base_step_rps [simp]:
  "requests_per_second (snd (base_step rnd b s)) = requests_per_second s"
proof (cases b)
  case (Acquire n nows)
  then show ?thesis by (simp add: base_step_snd del: base_step.simps)
next
  case (TryAcquire n now)
  have "requests_per_second (snd (try_acquire rnd n now s)) = requests_per_second s"
    by (rule try_acquire_preserves [where P = "\<lambda>x. requests_per_second x = requests_per_second s"])
       simp_all
  with TryAcquire show ?thesis by (simp add: base_step_snd del: base_step.simps)
next
  case (Reset now)
  then show ?thesis by (simp add: reset_def)
qed

lemma base_step_raised:
  assumes "fst (base_step rnd b s) = Raised e"
  shows "e = OverflowError \<or> (e = ZeroDivisionError \<and> requests_per_second s = Finite 0)"
proof (cases b)
  case (Acquire n nows)
  with assms have "fst (acquire rnd n nows s) = Raised e"
    by (cases "acquire rnd n nows s") (auto split: outcome.splits)
  then show ?thesis by (rule acquire_raised)
next
  case (TryAcquire n now)
  with assms have "fst (try_acquire rnd n now s) = Raised e"
    by (cases "try_acquire rnd n now s") (auto split: outcome.splits)
  then show ?thesis using try_acquire_raised by blast
next
  case (Reset now)
  with assms show ?thesis by simp
qed

lemma base_step_inv:
  "bucket_inv s \<Longrightarrow> 0 \<le> op_tokens b \<Longrightarrow> bucket_inv (snd (base_step rnd b s))"
  by (rule base_step_preserves [where P = bucket_inv])
     (simp_all add: refill_inv, simp_all add: bucket_inv_def reset_def)

subsection \<open>Sequences of calls\<close>

lemma run_Cons_fst:
  "fst (run step (x # xs) s) = fst (step x s) # fst (run step xs (snd (step x s)))"
  by (simp split: prod.splits)

lemma run_Cons_snd:
  "snd (run step (x # xs) s) = snd (run step xs (snd (step x s)))"
  by (simp split: prod.splits)

lemma run_preserves:
  assumes "\<And>x s. P s \<Longrightarrow> Q x \<Longrightarrow> P (snd (step x s))"
  shows "P s \<Longrightarrow> \<forall>x \<in> set xs. Q x \<Longrightarrow> P (snd (run step xs s))"
proof (induction xs arbitrary: s)
  case Nil
  then show ?case by simp
next
  case (Cons x xs)
  then show ?case by (simp add: run_Cons_snd assms del: run.simps)
qed

lemma run_base_inv:
  "bucket_inv s \<Longrightarrow> \<forall>b \<in> set ops. 0 \<le> op_tokens b \<Longrightarrow>
     bucket_inv (snd (run (base_step rnd) ops s))"
  using run_preserves [where P = bucket_inv and Q = "\<lambda>b. 0 \<le> op_tokens b"
      and step = "base_step rnd" and s = s and xs = ops] base_step_inv
  by blast

lemma run_base_raised:
  "Raised e \<in> set (fst (run (base_step rnd) ops s)) \<Longrightarrow>
     e = OverflowError \<or> (e = ZeroDivisionError \<and> requests_per_second s = Finite 0)"
proof (induction ops arbitrary: s)
  case Nil
  then show ?case by simp
next
  case (Cons b ops)
  from Cons.prems have "fst (base_step rnd b s) = Raised e
      \<or> Raised e \<in> set (fst (run (base_step rnd) ops (snd (base_step rnd b s))))"
    by (auto simp: run_Cons_fst simp del: run.simps)
  then show ?case
  proof
    assume "fst (base_step rnd b s) = Raised e"
    then show ?thesis by (rule base_step_raised)
  next
    assume "Raised e \<in> set (fst (run (base_step rnd) ops (snd (base_step rnd b s))))"
    from Cons.IH [OF this] show ?thesis by simp
  qed
qed

subsection \<open>The adaptive limiter\<close>

lemma adjust_rate_cases:
  obtains (same) "adjust_rate rnd st rt err s = (Returned (), s)"
  | (raise) e r where
      "py_int (py_max (min_requests_per_second s) (py_min (max_requests_per_second s) r)) = Inl e"
      "adjust_rate rnd st rt err s
         = (Raised e, s\<lparr>requests_per_second :=
              py_max (min_requests_per_second s) (py_min (max_requests_per_second s) r)\<rparr>)"
  | (change) k r where
      "py_int (py_max (min_requests_per_second s) (py_min (max_requests_per_second s) r)) = Inr k"
      "adjust_rate rnd st rt err s
         = (Returned (), s\<lparr>requests_per_second :=
              py_max (min_requests_per_second s) (py_min (max_requests_per_second s) r),
              max_tokens := k\<rparr>)"
proof (cases "proposed_rate rnd st rt err s")
  case None
  then show ?thesis using same by (simp add: adjust_rate_def)
next
  case (Some r)
  let ?new = "py_max (min_requests_per_second s) (py_min (max_requests_per_second s) r)"
  show ?thesis
  proof (cases "fl_eq ?new (requests_per_second s)")
    case True
    with Some show ?thesis using same by (simp add: adjust_rate_def Let_def)
  next
    case False
    show ?thesis
    proof (cases "py_int ?new")
      case (Inl e)
      with Some False show ?thesis using raise [of r e] by (simp add: adjust_rate_def Let_def)
    next
      case (Inr k)
      with Some False show ?thesis using change [of r k] by (simp add: adjust_rate_def Let_def)
    qed
  qed
qed

lemma adjust_rate_current [simp]:
  "current_tokens (snd (adjust_rate rnd st rt err s)) = current_tokens s"
  by (cases rule: adjust_rate_cases [where rnd = rnd and st = st and rt = rt and err = err and s = s])
     simp_all

lemma adjust_rate_min [simp]:
  "min_requests_per_second (snd (adjust_rate rnd st rt err s)) = min_requests_per_second s"
  by (cases rule: adjust_rate_cases [where rnd = rnd and st = st and rt = rt and err = err and s = s])
     simp_all

lemma adjust_rate_max [simp]:
  "max_requests_per_second (snd (adjust_rate rnd st rt err s)) = max_requests_per_second s"
  by (cases rule: adjust_rate_cases [where rnd = rnd and st = st and rt = rt and err = err and s = s])
     simp_all

lemma adjust_rate_bounds:
  assumes "rate_in_bounds s"
  shows "rate_in_bounds (snd (adjust_rate rnd st rt err s))"
proof -
  from assms have le: "fl_le (min_requests_per_second s) (max_requests_per_second s)"
    and nn: "min_requests_per_second s \<noteq> NaN"
    using fl_le_trans fl_le_not_NaN unfolding rate_in_bounds_def by blast+
  show ?thesis
    by (cases rule: adjust_rate_cases [where rnd = rnd and st = st and rt = rt and err = err and s = s])
       (use assms in \<open>simp_all add: rate_in_bounds_def py_max_ge [OF nn] clamp_le [OF le]\<close>)
qed

lemma adjust_rate_nonneg:
  assumes "tokens_nonneg s"
  shows "tokens_nonneg (snd (adjust_rate rnd st rt err s))"
proof (cases rule: adjust_rate_cases [where rnd = rnd and st = st and rt = rt and err = err and s = s])
  case (change k r)
  let ?new = "py_max (min_requests_per_second s) (py_min (max_requests_per_second s) r)"
  from assms have z: "fl_le (Finite 0) (min_requests_per_second s)"
    by (simp add: tokens_nonneg_def)
  then have "min_requests_per_second s \<noteq> NaN" using fl_le_not_NaN by blast
  then have "fl_le (Finite 0) ?new" using fl_le_trans [OF z py_max_ge] by blast
  moreover obtain x where "?new = Finite x" "k = trunc x" using py_int_Inr [OF change(1)] by blast
  ultimately have "0 \<le> k" by (simp add: trunc_nonneg)
  with assms change(2) show ?thesis by (simp add: tokens_nonneg_def)
qed (use assms in \<open>simp_all add: tokens_nonneg_def\<close>)

lemma adjust_rate_raised:
  assumes "rate_in_bounds s" and "fst (adjust_rate rnd st rt err s) = Raised e"
  shows "e = OverflowError"
proof (cases rule: adjust_rate_cases [where rnd = rnd and st = st and rt = rt and err = err and s = s])
  case (raise e' r)
  let ?new = "py_max (min_requests_per_second s) (py_min (max_requests_per_second s) r)"
  from assms(1) have "min_requests_per_second s \<noteq> NaN"
    using fl_le_not_NaN unfolding rate_in_bounds_def by blast
  then have "?new \<noteq> NaN" using py_max_ge fl_le_not_NaN by blast
  with py_int_Inl [OF raise(1)] have "e' = OverflowError" by blast
  with raise(2) assms(2) show ?thesis by simp
qed (use assms(2) in simp_all)

lemma record_response_eq:
  "\<exists>h. record_response rnd ts st rt err s = adjust_rate rnd st rt err (s\<lparr>recent_responses := h\<rparr>)"
  by (auto simp: record_response_def Let_def)

lemma record_response_current [simp]:
  "current_tokens (snd (record_response rnd ts st rt err s)) = current_tokens s"
  using record_response_eq [of rnd ts st rt err s] by auto

lemma record_response_min [simp]:
  "min_requests_per_second (snd (record_response rnd ts st rt err s)) = min_requests_per_second s"
  using record_response_eq [of rnd ts st rt err s] by auto

lemma record_response_max [simp]:
  "max_requests_per_second (snd (record_response rnd ts st rt err s)) = max_requests_per_second s"
  using record_response_eq [of rnd ts st rt err s] by auto

lemma record_response_bounds:
  "rate_in_bounds s \<Longrightarrow> rate_in_bounds (snd (record_response rnd ts st rt err s))"
  using record_response_eq [of rnd ts st rt err s]
    adjust_rate_bounds [of "s\<lparr>recent_responses := h\<rparr>" rnd st rt err for h]
  by (auto simp: rate_in_bounds_def)

lemma record_response_nonneg:
  "tokens_nonneg s \<Longrightarrow> tokens_nonneg (snd (record_response rnd ts st rt err s))"
  using record_response_eq [of rnd ts st rt err s]
    adjust_rate_nonneg [of "s\<lparr>recent_responses := h\<rparr>" rnd st rt err for h]
  by (auto simp: tokens_nonneg_def)

lemma record_response_raised:
  "rate_in_bounds s \<Longrightarrow> fst (record_response rnd ts st rt err s) = Raised e \<Longrightarrow> e = OverflowError"
  using record_response_eq [of rnd ts st rt err s]
    adjust_rate_raised [of "s\<lparr>recent_responses := h\<rparr>" rnd st rt err e for h]
  by (auto simp: rate_in_bounds_def)

lemma adaptive_step_snd:
  "snd (adaptive_step rnd a s) =
     (case a of Base b \<Rightarrow> snd (base_step rnd b s)
      | RecordResponse ts st rt err \<Rightarrow> snd (record_response rnd ts st rt err s))"
  by (cases a) (auto split: prod.splits outcome.splits)

lemma base_step_adaptive_fields:
  fixes s :: AdaptiveRateLimiter
  shows "min_requests_per_second (snd (base_step rnd b s)) = min_requests_per_second s
       \<and> max_requests_per_second (snd (base_step rnd b s)) = max_requests_per_second s"
proof -
  let ?P = "\<lambda>x. min_requests_per_second x = min_requests_per_second s
               \<and> max_requests_per_second x = max_requests_per_second s"
  have refill: "?P (snd (refill_tokens rnd now x))" if "?P x" for now x
    using that
    by (cases rule: refill_cases [where s = x and rnd = rnd and now = now]) simp_all
  show ?thesis
  proof (cases b)
    case (Acquire n nows)
    have "?P (snd (acquire rnd n nows s))"
      by (rule acquire_preserves [where P = ?P]) (use refill in simp_all)
    with Acquire show ?thesis by (simp add: base_step_snd del: base_step.simps)
  next
    case (TryAcquire n now)
    have "?P (snd (try_acquire rnd n now s))"
      by (rule try_acquire_preserves [where P = ?P]) (use refill in simp_all)
    with TryAcquire show ?thesis by (simp add: base_step_snd del: base_step.simps)
  next
    case (Reset now)
    then show ?thesis by (simp add: reset_def)
  qed
qed

lemma adaptive_step_fields:
  "min_requests_per_second (snd (adaptive_step rnd a s)) = min_requests_per_second s
   \<and> max_requests_per_second (snd (adaptive_step rnd a s)) = max_requests_per_second s"
  using base_step_adaptive_fields [of rnd _ s]
  by (cases a) (simp_all add: adaptive_step_snd del: adaptive_step.simps)

lemma adaptive_step_bounds:
  "rate_in_bounds s \<Longrightarrow> rate_in_bounds (snd (adaptive_step rnd a s))"
proof (cases a)
  case (Base b)
  assume "rate_in_bounds s"
  then show ?thesis
    using Base base_step_adaptive_fields [of rnd b s]
    by (simp add: rate_in_bounds_def adaptive_step_snd del: adaptive_step.simps)
next
  case (RecordResponse ts st rt err)
  assume "rate_in_bounds s"
  then show ?thesis
    using RecordResponse by (simp add: adaptive_step_snd record_response_bounds del: adaptive_step.simps)
qed

lemma refill_nonneg:
  fixes s :: AdaptiveRateLimiter
  shows "tokens_nonneg s \<Longrightarrow> tokens_nonneg (snd (refill_tokens rnd now s))"
proof (cases rule: refill_cases [where s = s and rnd = rnd and now = now])
  case (commit t x)
  assume "tokens_nonneg s"
  moreover have "0 \<le> \<lfloor>x\<rfloor>" using commit(3) by simp
  ultimately show ?thesis using commit(4) by (simp add: tokens_nonneg_def)
qed (simp_all add: tokens_nonneg_def)

lemma adaptive_step_nonneg:
  assumes "tokens_nonneg s" and "0 \<le> adaptive_op_tokens a"
  shows "tokens_nonneg (snd (adaptive_step rnd a s))"
proof (cases a)
  case (Base b)
  with assms(2) have "0 \<le> op_tokens b" by simp
  then have "tokens_nonneg (snd (base_step rnd b s))"
    by (rule base_step_preserves [where P = tokens_nonneg, rotated 4])
       (use assms(1) in \<open>simp_all add: refill_nonneg\<close>, simp_all add: tokens_nonneg_def reset_def)
  with Base show ?thesis by simp
next
  case (RecordResponse ts st rt err)
  with assms(1) show ?thesis
    by (simp add: adaptive_step_snd record_response_nonneg del: adaptive_step.simps)
qed

lemma run_adaptive_nonneg:
  "tokens_nonneg a \<Longrightarrow> \<forall>x \<in> set aops. 0 \<le> adaptive_op_tokens x \<Longrightarrow>
     tokens_nonneg (snd (run (adaptive_step rnd) aops a))"
  using run_preserves [where P = tokens_nonneg and Q = "\<lambda>x. 0 \<le> adaptive_op_tokens x"
      and step = "adaptive_step rnd" and s = a and xs = aops] adaptive_step_nonneg
  by blast

lemma run_adaptive_bounds:
  "rate_in_bounds a \<Longrightarrow> rate_in_bounds (snd (run (adaptive_step rnd) aops a))"
  using run_preserves [where P = rate_in_bounds and Q = "\<lambda>x. True"
      and step = "adaptive_step rnd" and s = a and xs = aops] adaptive_step_bounds
  by blast

lemma run_adaptive_fields:
  "min_requests_per_second (snd (run (adaptive_step rnd) aops a)) = min_requests_per_second a
   \<and> max_requests_per_second (snd (run (adaptive_step rnd) aops a)) = max_requests_per_second a"
  using run_preserves [where P = "\<lambda>x. min_requests_per_second x = min_requests_per_second a
               \<and> max_requests_per_second x = max_requests_per_second a" and Q = "\<lambda>x. True"
      and step = "adaptive_step rnd" and s = a and xs = aops] adaptive_step_fields
  by simp

text \<open>With a minimum rate above zero the rate is never zero.\<close>

lemma positive_rate:
  "rate_in_bounds s \<Longrightarrow> fl_less (Finite 0) (min_requests_per_second s) \<Longrightarrow>
     requests_per_second s \<noteq> Finite 0"
  using fl_less_le_trans [of "Finite 0" "min_requests_per_second s" "requests_per_second s"]
  by (auto simp: rate_in_bounds_def)

lemma adaptive_step_raised:
  assumes "rate_in_bounds s" and "fl_less (Finite 0) (min_requests_per_second s)"
    and "fst (adaptive_step rnd a s) = Raised e"
  shows "e = OverflowError"
proof (cases a)
  case (Base b)
  with assms(3) have "fst (base_step rnd b s) = Raised e" by simp
  from base_step_raised [OF this] positive_rate [OF assms(1,2)] show ?thesis by blast
next
  case (RecordResponse ts st rt err)
  with assms(3) have "fst (record_response rnd ts st rt err s) = Raised e"
    by (cases "record_response rnd ts st rt err s") (auto split: outcome.splits)
  with assms(1) show ?thesis by (rule record_response_raised)
qed

lemma run_adaptive_raised:
  "rate_in_bounds a \<Longrightarrow> fl_less (Finite 0) (min_requests_per_second a) \<Longrightarrow>
   Raised e \<in> set (fst (run (adaptive_step rnd) aops a)) \<Longrightarrow> e = OverflowError"
proof (induction aops arbitrary: a)
  case Nil
  then show ?case by simp
next
  case (Cons x aops)
  from Cons.prems(3) have "fst (adaptive_step rnd x a) = Raised e
      \<or> Raised e \<in> set (fst (run (adaptive_step rnd) aops (snd (adaptive_step rnd x a))))"
    by (auto simp: run_Cons_fst simp del: run.simps)
  then show ?case
  proof
    assume "fst (adaptive_step rnd x a) = Raised e"
    with Cons.prems(1,2) show ?thesis by (rule adaptive_step_raised)
  next
    assume r: "Raised e \<in> set (fst (run (adaptive_step rnd) aops (snd (adaptive_step rnd x a))))"
    show ?thesis
      using Cons.IH [OF adaptive_step_bounds [OF Cons.prems(1)] _ r] Cons.prems(2)
        adaptive_step_fields [of rnd x a]
      by simp
  qed
qed

lemma RateLimiter_init_Inl:
  "RateLimiter_init rps bc = Inl e \<longleftrightarrow>
     (bc = None \<or> bc = Some 0)
     \<and> (e = OverflowError \<and> (rps = PosInf \<or> rps = NegInf) \<or> e = ValueError \<and> rps = NaN)"
  by (cases bc; cases rps) (auto simp: RateLimiter_init_def)

lemma AdaptiveRateLimiter_init_Inr:
  assumes "AdaptiveRateLimiter_init r mn mx f = Inr a"
  shows "requests_per_second a = r" "min_requests_per_second a = mn"
    "max_requests_per_second a = mx" "current_tokens a = max_tokens a"
  using assms
  by (auto simp: AdaptiveRateLimiter_init_def RateLimiter_init_def RateLimiter.defs
      AdaptiveRateLimiter.defs split: sum.splits)

lemma refill_commit_le:
  "last_refill s = Some t \<Longrightarrow>
   fl_mul rnd (total_seconds rnd (now - t)) (requests_per_second s) = Finite x \<Longrightarrow> 1 \<le> x \<Longrightarrow>
     current_tokens (snd (refill_tokens rnd now s)) \<le> max_tokens (snd (refill_tokens rnd now s))"
  by (cases rule: refill_cases [where s = s and rnd = rnd and now = now]) simp_all

text \<open>
  The definitions a concrete run of the limiter unfolds. In the concrete runs below the
  rounding is the identity \<open>Finite\<close>: their numbers are chosen so that every float operation
  is exact in doubles (small integers and dyadic fractions), unless a rounding is written
  out.
\<close>

lemmas eval_defs = RateLimiter_init_def AdaptiveRateLimiter_init_def RateLimiter.defs
  AdaptiveRateLimiter.defs trunc_def py_div_def float_of_int_def total_seconds_def
  refill_tokens_def try_acquire_def reset_def record_response_def adjust_rate_def
  proposed_rate_def Let_def bucket_inv_def tokens_nonneg_def rate_in_bounds_def fl_sub_def
  fl_le_def fl_eq_def py_max_def py_min_def signed_inf_def acquire.simps

text \<open>
  Claim C2, as the code has it. The constructor does not look at the sign of the rate or
  of the capacity: it fails only when it has to derive the capacity from a rate that is
  infinite (\<open>OverflowError\<close>) or NaN (\<open>ValueError\<close>), and accepts every other rate and
  capacity, zero and negative ones too. At call time, on every limiter (basic or
  adaptive), an \<open>acquire\<close> that finds fewer tokens than it asks for while the rate is zero
  raises \<open>ZeroDivisionError\<close> in its wait computation (once the shortfall has been converted
  to a float; a shortfall too large for a float raises \<open>OverflowError\<close> first). In every sequence of \<open>acquire\<close>,
  \<open>try_acquire\<close> and \<open>reset\<close> calls on a basic limiter, a call raises \<open>ZeroDivisionError\<close> only
  when the rate is zero, and the only other exception is \<open>OverflowError\<close> (from \<open>int()\<close> of
  an infinite \<open>elapsed * rate\<close>, or from a token shortfall too large for a float). On an
  adaptive limiter whose rate is within its bounds and whose minimum rate is above zero,
  no call, \<open>record_response\<close> included, raises anything but \<open>OverflowError\<close>.
\<close>

theorem limiter_exceptions:
  "(RateLimiter_init rps bc = Inl e \<longleftrightarrow>
      (bc = None \<or> bc = Some 0)
      \<and> (e = OverflowError \<and> (rps = PosInf \<or> rps = NegInf) \<or> e = ValueError \<and> rps = NaN))
   \<and> (Raised e' \<in> set (fst (run (base_step rnd) ops s)) \<longrightarrow>
        e' = OverflowError \<or> (e' = ZeroDivisionError \<and> requests_per_second s = Finite 0))
   \<and> (rate_in_bounds a \<and> fl_less (Finite 0) (min_requests_per_second a)
        \<and> Raised e' \<in> set (fst (run (adaptive_step rnd) aops a)) \<longrightarrow> e' = OverflowError)
   \<and> (current_tokens s < n \<and> float_of_int rnd (n - current_tokens s) = Inr w
        \<and> requests_per_second s = Finite 0
        \<longrightarrow> acquire rnd n nows s = (Raised ZeroDivisionError, s))"
  using RateLimiter_init_Inl [of rps bc e] run_base_raised [of e' rnd ops s]
    run_adaptive_raised [of a e' rnd aops] acquire_zero_rate [of s n rnd w nows]
  by blast

text \<open>
  Claim C2 as stated fails. A limiter with rate 0 is constructed without error, and its
  first \<open>acquire(1)\<close> divides by zero; a negative rate with a negative capacity is
  accepted; a limiter with an infinite rate and capacity 5 is constructed and raises
  \<open>OverflowError\<close> in its second \<open>try_acquire\<close>; an adaptive limiter with minimum rate 0 and
  factor 0.5 reaches rate 0 after one response with status 429, and the next \<open>acquire\<close>
  that has to wait divides by zero.
\<close>

theorem limiter_exceptions_counterexample:
  "RateLimiter_init (Finite 0) None
     = Inr \<lparr>requests_per_second = Finite 0, max_tokens = 0, current_tokens = 0, last_refill = None\<rparr>
   \<and> fst (acquire Finite 1 [1000000]
        \<lparr>requests_per_second = Finite 0, max_tokens = 0, current_tokens = 0, last_refill = None\<rparr>)
       = Raised ZeroDivisionError
   \<and> RateLimiter_init (Finite (- 1)) (Some (- 5))
     = Inr \<lparr>requests_per_second = Finite (- 1), max_tokens = - 5, current_tokens = - 5,
            last_refill = None\<rparr>
   \<and> RateLimiter_init PosInf (Some 5)
     = Inr \<lparr>requests_per_second = PosInf, max_tokens = 5, current_tokens = 5, last_refill = None\<rparr>
   \<and> fst (run (base_step Finite) [TryAcquire 1 0, TryAcquire 1 1000000]
        \<lparr>requests_per_second = PosInf, max_tokens = 5, current_tokens = 5, last_refill = None\<rparr>)
       = [Returned (PBool True), Raised OverflowError]
   \<and> AdaptiveRateLimiter_init (Finite 10) (Finite 0) (Finite 100) (Finite (1/2))
     = Inr \<lparr>requests_per_second = Finite 10, max_tokens = 10, current_tokens = 10,
            last_refill = None, min_requests_per_second = Finite 0,
            max_requests_per_second = Finite 100, adaptation_factor = Finite (1/2),
            recent_responses = [], max_response_history = 100\<rparr>
   \<and> fst (run (adaptive_step Finite) [RecordResponse 0 429 (Finite (1/8)) False, Base (Acquire 11 [])]
        \<lparr>requests_per_second = Finite 10, max_tokens = 10, current_tokens = 10,
         last_refill = None, min_requests_per_second = Finite 0,
         max_requests_per_second = Finite 100, adaptation_factor = Finite (1/2),
         recent_responses = [], max_response_history = 100\<rparr>)
       = [Returned PNone, Raised ZeroDivisionError]"
  by (simp add: eval_defs)

theorem limiter_exceptions_witness:
  "RateLimiter_init PosInf None = Inl OverflowError
   \<and> RateLimiter_init NaN (Some 0) = Inl ValueError
   \<and> fst (run (base_step Finite) [TryAcquire 1 0, TryAcquire 1 1000000]
        \<lparr>requests_per_second = PosInf, max_tokens = 5, current_tokens = 5, last_refill = None\<rparr>)
       = [Returned (PBool True), Raised OverflowError]
   \<and> rate_in_bounds \<lparr>requests_per_second = Finite 10, max_tokens = 10, current_tokens = 10,
         last_refill = None, min_requests_per_second = Finite 1,
         max_requests_per_second = Finite 100, adaptation_factor = Finite (1/2),
         recent_responses = [], max_response_history = 100\<rparr>
   \<and> fl_less (Finite 0) (Finite 1)
   \<and> fst (run (adaptive_step Finite) [RecordResponse 0 429 (Finite (1/8)) False, Base (Acquire 11 [])]
        \<lparr>requests_per_second = Finite 10, max_tokens = 10, current_tokens = 10,
         last_refill = None, min_requests_per_second = Finite 1,
         max_requests_per_second = Finite 100, adaptation_factor = Finite (1/2),
         recent_responses = [], max_response_history = 100\<rparr>)
       = [Returned PNone, Blocked]
   \<and> float_of_int Finite (1 - 0) = Inr (Finite 1)
   \<and> acquire Finite 1 []
        \<lparr>requests_per_second = Finite 0, max_tokens = 0, current_tokens = 0, last_refill = None\<rparr>
       = (Raised ZeroDivisionError,
          \<lparr>requests_per_second = Finite 0, max_tokens = 0, current_tokens = 0, last_refill = None\<rparr>)"
  using limiter_exceptions [of PosInf None OverflowError OverflowError Finite
      "[TryAcquire 1 0, TryAcquire 1 1000000]"
      "\<lparr>requests_per_second = PosInf, max_tokens = 5, current_tokens = 5, last_refill = None\<rparr>"
      "\<lparr>requests_per_second = Finite 10, max_tokens = 10, current_tokens = 10,
         last_refill = None, min_requests_per_second = Finite 1,
         max_requests_per_second = Finite 100, adaptation_factor = Finite (1/2),
         recent_responses = [], max_response_history = 100\<rparr>"
      "[RecordResponse 0 429 (Finite (1/8)) False, Base (Acquire 11 [])]" 1 "Finite 1" "[]"]
    limiter_exceptions [of NaN "Some 0" ValueError ZeroDivisionError Finite "[]"
      "\<lparr>requests_per_second = Finite 0, max_tokens = 0, current_tokens = 0, last_refill = None\<rparr>"
      "\<lparr>requests_per_second = Finite 10, max_tokens = 10, current_tokens = 10,
         last_refill = None, min_requests_per_second = Finite 1,
         max_requests_per_second = Finite 100, adaptation_factor = Finite (1/2),
         recent_responses = [], max_response_history = 100\<rparr>"
      "[]" 1 "Finite 1" "[]"]
  by (simp add: eval_defs)

text \<open>
  Claim C4, as the code has it. Started with \<open>0 \<le> tokens \<le> capacity\<close>, every sequence of
  \<open>acquire\<close>, \<open>try_acquire\<close> (of token counts that are not negative) and \<open>reset\<close> keeps
  \<open>0 \<le> tokens \<le> capacity\<close>. On the adaptive limiter \<open>record_response\<close> leaves the tokens
  untouched: with a minimum rate that is not negative, \<open>0 \<le> tokens\<close> holds after every
  sequence of calls, but the tokens may exceed the capacity re-derived from a lowered rate.
  \<open>tokens \<le> capacity\<close> holds again after a refill check that commits
  (\<open>tokens_to_add \<ge> 1\<close>) and after \<open>reset\<close>.
\<close>

theorem bucket_invariant_amended:
  "(bucket_inv s \<and> (\<forall>b \<in> set ops. 0 \<le> op_tokens b)
      \<longrightarrow> bucket_inv (snd (run (base_step rnd) ops s)))
   \<and> (tokens_nonneg a \<and> (\<forall>x \<in> set aops. 0 \<le> adaptive_op_tokens x)
        \<longrightarrow> 0 \<le> current_tokens (snd (run (adaptive_step rnd) aops a)))
   \<and> current_tokens (snd (record_response rnd ts st rt err a)) = current_tokens a
   \<and> (last_refill s = Some t
        \<and> fl_mul rnd (total_seconds rnd (now - t)) (requests_per_second s) = Finite x \<and> 1 \<le> x
        \<longrightarrow> current_tokens (snd (refill_tokens rnd now s))
              \<le> max_tokens (snd (refill_tokens rnd now s)))
   \<and> current_tokens (reset now s) \<le> max_tokens (reset now s)"
proof (intro conjI impI)
  assume "bucket_inv s \<and> (\<forall>b \<in> set ops. 0 \<le> op_tokens b)"
  then show "bucket_inv (snd (run (base_step rnd) ops s))" by (simp add: run_base_inv)
next
  assume "tokens_nonneg a \<and> (\<forall>x \<in> set aops. 0 \<le> adaptive_op_tokens x)"
  then have "tokens_nonneg (snd (run (adaptive_step rnd) aops a))"
    by (simp add: run_adaptive_nonneg)
  then show "0 \<le> current_tokens (snd (run (adaptive_step rnd) aops a))"
    by (simp add: tokens_nonneg_def)
next
  show "current_tokens (snd (record_response rnd ts st rt err a)) = current_tokens a" by simp
next
  assume "last_refill s = Some t
      \<and> fl_mul rnd (total_seconds rnd (now - t)) (requests_per_second s) = Finite x \<and> 1 \<le> x"
  then show "current_tokens (snd (refill_tokens rnd now s))
      \<le> max_tokens (snd (refill_tokens rnd now s))"
    using refill_commit_le [of s t rnd now x] by blast
next
  show "current_tokens (reset now s) \<le> max_tokens (reset now s)" by (simp add: reset_def)
qed

text \<open>
  Claim C4 as stated fails: from rate 10 with 10 tokens, one response with status 429 and
  factor 0.25 lowers the capacity to 5 and leaves 10 tokens; a refill check that does not
  commit (here the first one, inside \<open>try_acquire\<close>) does not clamp them either.
\<close>

theorem bucket_invariant_counterexample:
  "AdaptiveRateLimiter_init (Finite 10) (Finite 1) (Finite 100) (Finite (1/4))
     = Inr \<lparr>requests_per_second = Finite 10, max_tokens = 10, current_tokens = 10,
            last_refill = None, min_requests_per_second = Finite 1,
            max_requests_per_second = Finite 100, adaptation_factor = Finite (1/4),
            recent_responses = [], max_response_history = 100\<rparr>
   \<and> current_tokens (snd (record_response Finite 0 429 (Finite (1/8)) False
        \<lparr>requests_per_second = Finite 10, max_tokens = 10, current_tokens = 10,
         last_refill = None, min_requests_per_second = Finite 1,
         max_requests_per_second = Finite 100, adaptation_factor = Finite (1/4),
         recent_responses = [], max_response_history = 100\<rparr>)) = 10
   \<and> max_tokens (snd (record_response Finite 0 429 (Finite (1/8)) False
        \<lparr>requests_per_second = Finite 10, max_tokens = 10, current_tokens = 10,
         last_refill = None, min_requests_per_second = Finite 1,
         max_requests_per_second = Finite 100, adaptation_factor = Finite (1/4),
         recent_responses = [], max_response_history = 100\<rparr>)) = 5
   \<and> \<not> bucket_inv (snd (run (adaptive_step Finite) [RecordResponse 0 429 (Finite (1/8)) False]
        \<lparr>requests_per_second = Finite 10, max_tokens = 10, current_tokens = 10,
         last_refill = None, min_requests_per_second = Finite 1,
         max_requests_per_second = Finite 100, adaptation_factor = Finite (1/4),
         recent_responses = [], max_response_history = 100\<rparr>))
   \<and> \<not> bucket_inv (snd (run (adaptive_step Finite)
        [RecordResponse 0 429 (Finite (1/8)) False, Base (TryAcquire 1 0)]
        \<lparr>requests_per_second = Finite 10, max_tokens = 10, current_tokens = 10,
         last_refill = None, min_requests_per_second = Finite 1,
         max_requests_per_second = Finite 100, adaptation_factor = Finite (1/4),
         recent_responses = [], max_response_history = 100\<rparr>))"
  by (simp add: eval_defs)

theorem bucket_invariant_amended_witness:
  "bucket_inv \<lparr>requests_per_second = Finite 5, max_tokens = 5, current_tokens = 5,
               last_refill = Some 0\<rparr>
   \<and> map op_tokens [TryAcquire 1 0, TryAcquire 1 0, TryAcquire 1 0, TryAcquire 1 0, TryAcquire 1 0,
                     TryAcquire 1 0, TryAcquire 1 1000000] = [1, 1, 1, 1, 1, 1, 1]
   \<and> fst (run (base_step Finite) [TryAcquire 1 0, TryAcquire 1 0, TryAcquire 1 0, TryAcquire 1 0,
                          TryAcquire 1 0, TryAcquire 1 0, TryAcquire 1 1000000]
        \<lparr>requests_per_second = Finite 5, max_tokens = 5, current_tokens = 5, last_refill = Some 0\<rparr>)
       = [Returned (PBool True), Returned (PBool True), Returned (PBool True), Returned (PBool True),
          Returned (PBool True), Returned (PBool False), Returned (PBool True)]
   \<and> bucket_inv (snd (run (base_step Finite) [TryAcquire 1 0, TryAcquire 1 0, TryAcquire 1 0,
                          TryAcquire 1 0, TryAcquire 1 0, TryAcquire 1 0, TryAcquire 1 1000000]
        \<lparr>requests_per_second = Finite 5, max_tokens = 5, current_tokens = 5, last_refill = Some 0\<rparr>))
   \<and> tokens_nonneg \<lparr>requests_per_second = Finite 10, max_tokens = 10, current_tokens = 10,
         last_refill = None, min_requests_per_second = Finite 1,
         max_requests_per_second = Finite 100, adaptation_factor = Finite (1/4),
         recent_responses = [], max_response_history = 100\<rparr>
   \<and> map adaptive_op_tokens [RecordResponse 0 429 (Finite (1/8)) False, Base (TryAcquire 1 0)] = [0, 1]
   \<and> current_tokens (snd (run (adaptive_step Finite)
        [RecordResponse 0 429 (Finite (1/8)) False, Base (TryAcquire 1 0)]
        \<lparr>requests_per_second = Finite 10, max_tokens = 10, current_tokens = 10,
         last_refill = None, min_requests_per_second = Finite 1,
         max_requests_per_second = Finite 100, adaptation_factor = Finite (1/4),
         recent_responses = [], max_response_history = 100\<rparr>)) = 9
   \<and> fl_mul Finite (total_seconds Finite (1000000 - 0)) (Finite 5) = Finite 5
   \<and> current_tokens (snd (refill_tokens Finite 1000000
        \<lparr>requests_per_second = Finite 5, max_tokens = 5, current_tokens = 5, last_refill = Some 0\<rparr>))
       = 5"
  using bucket_invariant_amended [of
      "\<lparr>requests_per_second = Finite 5, max_tokens = 5, current_tokens = 5, last_refill = Some 0\<rparr>"
      "[TryAcquire 1 0, TryAcquire 1 0, TryAcquire 1 0, TryAcquire 1 0, TryAcquire 1 0,
        TryAcquire 1 0, TryAcquire 1 1000000]" Finite
      "\<lparr>requests_per_second = Finite 10, max_tokens = 10, current_tokens = 10,
         last_refill = None, min_requests_per_second = Finite 1,
         max_requests_per_second = Finite 100, adaptation_factor = Finite (1/4),
         recent_responses = [], max_response_history = 100\<rparr>"
      "[RecordResponse 0 429 (Finite (1/8)) False, Base (TryAcquire 1 0)]"
      0 429 "Finite (1/8)" False 0 1000000 5]
  by (simp add: eval_defs)

text \<open>
  Claim C5, as the code has it. When the limiter is constructed with
  \<open>min \<le> initial \<le> max\<close>, the rate lies within \<open>[min, max]\<close> right after construction
  and after every sequence of \<open>record_response\<close>, \<open>acquire\<close>, \<open>try_acquire\<close> and \<open>reset\<close>
  calls, also of calls that raise.
\<close>

theorem adaptive_rate_within_bounds:
  assumes "AdaptiveRateLimiter_init r mn mx f = Inr a" and "fl_le mn r" and "fl_le r mx"
  shows "fl_le mn (requests_per_second (snd (run (adaptive_step rnd) ops a)))
       \<and> fl_le (requests_per_second (snd (run (adaptive_step rnd) ops a))) mx"
proof -
  have "rate_in_bounds a"
    using assms AdaptiveRateLimiter_init_Inr [OF assms(1)] by (simp add: rate_in_bounds_def)
  then have "rate_in_bounds (snd (run (adaptive_step rnd) ops a))" by (rule run_adaptive_bounds)
  then show ?thesis
    using run_adaptive_fields [of rnd ops a] AdaptiveRateLimiter_init_Inr [OF assms(1)]
    by (simp add: rate_in_bounds_def)
qed

text \<open>
  Claim C5 as stated fails for an initial rate outside the bounds: constructed with rate
  200 and bounds 1 and 100, the limiter has rate 200.
\<close>

theorem adaptive_rate_counterexample:
  "AdaptiveRateLimiter_init (Finite 200) (Finite 1) (Finite 100) (Finite (1/4))
     = Inr \<lparr>requests_per_second = Finite 200, max_tokens = 200, current_tokens = 200,
            last_refill = None, min_requests_per_second = Finite 1,
            max_requests_per_second = Finite 100, adaptation_factor = Finite (1/4),
            recent_responses = [], max_response_history = 100\<rparr>
   \<and> \<not> fl_le (Finite 200) (Finite 100)"
  by (simp add: eval_defs)

theorem adaptive_rate_within_bounds_witness:
  "AdaptiveRateLimiter_init (Finite 10) (Finite 1) (Finite 100) (Finite (1/4))
     = Inr \<lparr>requests_per_second = Finite 10, max_tokens = 10, current_tokens = 10,
            last_refill = None, min_requests_per_second = Finite 1,
            max_requests_per_second = Finite 100, adaptation_factor = Finite (1/4),
            recent_responses = [], max_response_history = 100\<rparr>
   \<and> fl_le (Finite 1) (Finite 10) \<and> fl_le (Finite 10) (Finite 100)
   \<and> requests_per_second (snd (run (adaptive_step Finite)
        [RecordResponse 0 429 (Finite (1/8)) False, RecordResponse 1 500 (Finite (1/8)) True]
        \<lparr>requests_per_second = Finite 10, max_tokens = 10, current_tokens = 10,
         last_refill = None, min_requests_per_second = Finite 1,
         max_requests_per_second = Finite 100, adaptation_factor = Finite (1/4),
         recent_responses = [], max_response_history = 100\<rparr>)) = Finite (15/4)
   \<and> fl_le (Finite 1) (Finite (15/4)) \<and> fl_le (Finite (15/4)) (Finite 100)"
  using adaptive_rate_within_bounds [of "Finite 10" "Finite 1" "Finite 100" "Finite (1/4)"
      "\<lparr>requests_per_second = Finite 10, max_tokens = 10, current_tokens = 10,
         last_refill = None, min_requests_per_second = Finite 1,
         max_requests_per_second = Finite 100, adaptation_factor = Finite (1/4),
         recent_responses = [], max_response_history = 100\<rparr>" Finite
      "[RecordResponse 0 429 (Finite (1/8)) False, RecordResponse 1 500 (Finite (1/8)) True]"]
  by (simp add: eval_defs)



lemma refill_tokens_first:
  "last_refill s = None \<Longrightarrow> refill_tokens rnd now s = (Returned (), s\<lparr>last_refill := Some now\<rparr>)"
  by (simp add: refill_tokens_def)

lemma refill_tokens_overflow:
  "last_refill s = Some t \<Longrightarrow>
   fl_mul rnd (total_seconds rnd (now - t)) (requests_per_second s) = PosInf \<Longrightarrow>
     refill_tokens rnd now s = (Raised OverflowError, s)"
  by (simp add: refill_tokens_def Let_def fl_le_def)

section \<open>Properties of the cache\<close>

lemma map_of_cache_set [simp]:
  "map_of (cache_set t0 k v ttl c) k = Some \<lparr>entry_value = v, expires_at = t0 + real_of_int ttl\<rparr>"
  by (simp add: cache_set_def Let_def update_conv')

lemma fold_delete_filter:
  "fold AList.delete ks c = filter (\<lambda>kv. fst kv \<notin> set ks) c"
proof (induction ks arbitrary: c)
  case Nil
  show ?case by simp
next
  case (Cons k ks)
  have "AList.delete k c = filter (\<lambda>kv. fst kv \<noteq> k) c"
    by (auto simp: AList.delete_eq intro: filter_cong)
  then show ?case by (auto simp: Cons.IH intro: filter_cong)
qed

lemma clear_matching:
  "fold AList.delete (filter m (map fst c)) c = filter (\<lambda>kv. \<not> m (fst kv)) c"
  unfolding fold_delete_filter by (rule filter_cong) auto

lemma length_matching:
  "length (filter m (map fst c)) = length (filter (\<lambda>kv. m (fst kv)) c)"
  by (induction c) auto

lemma map_of_filter_key:
  "map_of (filter (\<lambda>kv. P (fst kv)) c) k = (if P k then map_of c k else None)"
  by (induction c) auto

text \<open>
  Claim C3, as the code has it. For a key whose entry is still in the dictionary with
  \<open>expires_at \<le> now\<close>: \<open>get\<close> returns the absent marker (and removes the entry), \<open>exists\<close>
  is false and \<open>touch\<close> returns false and changes nothing. \<open>delete\<close> and \<open>get_keys\<close> do not
  look at the expiry: \<open>delete\<close> removes the entry and returns true, \<open>get_keys\<close> lists the key.
\<close>

theorem expired_entry_operations:
  assumes "map_of c k = Some e" and "expires_at e \<le> now"
  shows "cache_get now k c = (PNone, AList.delete k c)
       \<and> cache_exists now k c = (False, AList.delete k c)
       \<and> cache_touch now now' k ttl c = (False, c)
       \<and> cache_delete k c = (True, AList.delete k c)
       \<and> cache_get_keys re_compile None c = Inr (map fst c)
       \<and> k \<in> set (map fst c)"
proof -
  from assms(1) have "k \<in> fst ` set c" by (rule map_of_SomeD [THEN imageI, of _ _ _ fst, simplified])
  then show ?thesis
    using assms by (simp add: cache_get_def cache_exists_def cache_touch_def cache_delete_def
        cache_get_keys_def)
qed

text \<open>
  Claim C3 as stated fails for \<open>delete\<close> and \<open>get_keys\<close>: on an entry that expired at time 5
  and is read at time 10, \<open>delete\<close> returns true and \<open>get_keys\<close> lists the key.
\<close>

theorem expired_entry_counterexample:
  "expires_at \<lparr>entry_value = PInt 1, expires_at = 5\<rparr> \<le> 10
   \<and> fst (cache_delete ''k'' [(''k'', \<lparr>entry_value = PInt 1, expires_at = 5\<rparr>)]) = True
   \<and> cache_get_keys (\<lambda>p. None) None [(''k'', \<lparr>entry_value = PInt 1, expires_at = 5\<rparr>)] = Inr [''k'']"
  by (simp add: cache_delete_def cache_get_keys_def)

theorem expired_entry_operations_witness:
  "cache_get 10 ''k'' [(''k'', \<lparr>entry_value = PInt 1, expires_at = 5\<rparr>)] = (PNone, [])
   \<and> cache_exists 10 ''k'' [(''k'', \<lparr>entry_value = PInt 1, expires_at = 5\<rparr>)] = (False, [])
   \<and> cache_touch 10 11 ''k'' 60 [(''k'', \<lparr>entry_value = PInt 1, expires_at = 5\<rparr>)]
        = (False, [(''k'', \<lparr>entry_value = PInt 1, expires_at = 5\<rparr>)])
   \<and> cache_delete ''k'' [(''k'', \<lparr>entry_value = PInt 1, expires_at = 5\<rparr>)] = (True, [])
   \<and> cache_get_keys (\<lambda>p. None) None [(''k'', \<lparr>entry_value = PInt 1, expires_at = 5\<rparr>)] = Inr [''k'']"
  using expired_entry_operations [of "[(''k'', \<lparr>entry_value = PInt 1, expires_at = 5\<rparr>)]" "''k''"
          "\<lparr>entry_value = PInt 1, expires_at = 5\<rparr>" 10 11 60 "\<lambda>p. None"]
  by (simp add: AList.delete_eq)

text \<open>
  Claim C8. After \<open>set(k, v, ttl)\<close> at time \<open>t0\<close>, a \<open>get(k)\<close> at a time \<open>t1\<close> before
  \<open>t0 + ttl\<close> returns \<open>v\<close>, and a \<open>get(k)\<close> at \<open>t0 + ttl\<close> or later returns the absent marker.
  This holds for every \<open>ttl\<close>, so for every \<open>ttl > 0\<close>.
\<close>

theorem set_then_get:
  "(t1 < t0 + real_of_int ttl \<longrightarrow> fst (cache_get t1 k (cache_set t0 k v ttl c)) = v)
   \<and> (t0 + real_of_int ttl \<le> t1 \<longrightarrow> fst (cache_get t1 k (cache_set t0 k v ttl c)) = PNone)"
  by (simp add: cache_get_def)

theorem set_then_get_witness:
  "(100::real) < 0 + real_of_int 300
   \<and> fst (cache_get 100 ''account:7'' (cache_set 0 ''account:7'' (PStr ''x'') 300 [])) = PStr ''x''
   \<and> (0::real) + real_of_int 300 \<le> 300
   \<and> fst (cache_get 300 ''account:7'' (cache_set 0 ''account:7'' (PStr ''x'') 300 [])) = PNone"
  using set_then_get [of 100 0 300 "''account:7''" "PStr ''x''" "[]"]
        set_then_get [of 300 0 300 "''account:7''" "PStr ''x''" "[]"]
  by simp

text \<open>
  Claim C9. With a pattern that compiles, \<open>clear\<close> removes exactly the entries whose key
  the compiled pattern matches, returns their number and leaves every other entry as it
  was; with a pattern that \<open>re.compile\<close> rejects, the call raises \<open>re.error\<close> and the cache
  is unchanged (nothing is removed, it is not a match-all).
\<close>

theorem clear_with_pattern:
  "(re_compile p = Some m \<longrightarrow>
      cache_clear re_compile (Some p) c
        = (Inr (length (filter (\<lambda>kv. m (fst kv)) c)), filter (\<lambda>kv. \<not> m (fst kv)) c)
      \<and> map_of (snd (cache_clear re_compile (Some p) c)) k = (if m k then None else map_of c k))
   \<and> (re_compile p = None \<longrightarrow> cache_clear re_compile (Some p) c = (Inl ReError, c))"
proof (intro conjI impI)
  assume m: "re_compile p = Some m"
  then have eq: "cache_clear re_compile (Some p) c
      = (Inr (length (filter m (map fst c))), fold AList.delete (filter m (map fst c)) c)"
    by (simp add: cache_clear_def Let_def)
  show "cache_clear re_compile (Some p) c
      = (Inr (length (filter (\<lambda>kv. m (fst kv)) c)), filter (\<lambda>kv. \<not> m (fst kv)) c)"
    unfolding eq clear_matching length_matching ..
  have "map_of (filter (\<lambda>kv. \<not> m (fst kv)) c) k = (if \<not> m k then map_of c k else None)"
    by (rule map_of_filter_key)
  then show "map_of (snd (cache_clear re_compile (Some p) c)) k = (if m k then None else map_of c k)"
    unfolding eq clear_matching by simp
next
  assume "re_compile p = None"
  then show "cache_clear re_compile (Some p) c = (Inl ReError, c)"
    by (simp add: cache_clear_def)
qed

theorem clear_with_pattern_witness:
  "cache_clear (\<lambda>p. if p = ''a:.*'' then Some (\<lambda>key. take 2 key = ''a:'') else None) (Some ''a:.*'')
      [(''a:1'', \<lparr>entry_value = PInt 1, expires_at = 9\<rparr>),
       (''a:2'', \<lparr>entry_value = PInt 2, expires_at = 9\<rparr>),
       (''b:1'', \<lparr>entry_value = PInt 3, expires_at = 9\<rparr>)]
     = (Inr 2, [(''b:1'', \<lparr>entry_value = PInt 3, expires_at = 9\<rparr>)])
   \<and> cache_clear (\<lambda>p. if p = ''a:.*'' then Some (\<lambda>key. take 2 key = ''a:'') else None) (Some ''a:(*'')
      [(''a:1'', \<lparr>entry_value = PInt 1, expires_at = 9\<rparr>),
       (''a:2'', \<lparr>entry_value = PInt 2, expires_at = 9\<rparr>),
       (''b:1'', \<lparr>entry_value = PInt 3, expires_at = 9\<rparr>)]
     = (Inl ReError, [(''a:1'', \<lparr>entry_value = PInt 1, expires_at = 9\<rparr>),
       (''a:2'', \<lparr>entry_value = PInt 2, expires_at = 9\<rparr>),
       (''b:1'', \<lparr>entry_value = PInt 3, expires_at = 9\<rparr>)])"
  using clear_with_pattern [of "\<lambda>p. if p = ''a:.*'' then Some (\<lambda>key. take 2 key = ''a:'') else None"
          "''a:.*''" "\<lambda>key. take 2 key = ''a:''"
          "[(''a:1'', \<lparr>entry_value = PInt 1, expires_at = 9\<rparr>),
            (''a:2'', \<lparr>entry_value = PInt 2, expires_at = 9\<rparr>),
            (''b:1'', \<lparr>entry_value = PInt 3, expires_at = 9\<rparr>)]" "''b:1''"]
        clear_with_pattern [of "\<lambda>p. if p = ''a:.*'' then Some (\<lambda>key. take 2 key = ''a:'') else None"
          "''a:(*''" "\<lambda>key. True"
          "[(''a:1'', \<lparr>entry_value = PInt 1, expires_at = 9\<rparr>),
            (''a:2'', \<lparr>entry_value = PInt 2, expires_at = 9\<rparr>),
            (''b:1'', \<lparr>entry_value = PInt 3, expires_at = 9\<rparr>)]" "''b:1''"]
  by simp
section \<open>Properties of the request path\<close>

lemma caching_key_GET [simp]: "key \<noteq> [] \<Longrightarrow> caching_key ''GET'' (Some key) = Some key"
  by (simp add: caching_key_def)

lemma cache_get_live:
  "map_of c key = Some e \<Longrightarrow> now < expires_at e \<Longrightarrow> cache_get now key c = (entry_value e, c)"
  by (simp add: cache_get_def)

lemma cache_get_missing: "map_of c key = None \<Longrightarrow> cache_get now key c = (PNone, c)"
  by (simp add: cache_get_def)

lemma upstream_call_sends:
  assumes "fst (acquire rnd 1 (at_acquire clk) (rate_limiter s)) = Returned ()"
  shows "requests_sent (snd (upstream_call rnd tr clk method endpoint data params cache_key ttl s))
           = requests_sent s @ [\<lparr>req_method = method, req_url = api_base_url s @ endpoint,
                                 req_json = data, req_params = params\<rparr>]
       \<and> fst (upstream_call rnd tr clk method endpoint data params cache_key ttl s)
           = (case tr (requests_sent s)
                     \<lparr>req_method = method, req_url = api_base_url s @ endpoint,
                      req_json = data, req_params = params\<rparr> of
                Inl x \<Rightarrow> Raised OpenTextAPIError
              | Inr (status, body) \<Rightarrow>
                  if 400 \<le> status then Raised OpenTextAPIError else Returned body)"
proof -
  obtain rl where "acquire rnd 1 (at_acquire clk) (rate_limiter s) = (Returned (), rl)"
    using assms by (cases "acquire rnd 1 (at_acquire clk) (rate_limiter s)") simp
  then show ?thesis
    by (simp add: upstream_call_def Let_def split: sum.splits option.splits prod.splits)
qed

text \<open>
  Claim C10. Take a live entry (\<open>expires_at\<close> later than the reading of the clock) under a
  non-empty key. When its value is \<open>None\<close>, \<open>get\<close> returns \<open>None\<close>, which is also what it
  returns when the key is missing, and \<open>exists\<close> is false. When its value is falsy, a \<open>GET\<close>
  request with that cache key does what it does on a miss: it goes on to the rate limiter
  and, once \<open>acquire\<close> has returned, hands one new request to the transport and answers with
  the transport's result, not with the cached value.
\<close>

theorem falsy_cache_entry_is_a_miss:
  assumes "map_of (cache_manager s) key = Some e" and "at_cache_get clk < expires_at e"
    and "key \<noteq> []"
  shows "(entry_value e = PNone \<longrightarrow>
            cache_get (at_cache_get clk) key (cache_manager s) = (PNone, cache_manager s)
          \<and> fst (cache_get (at_cache_get clk) key (AList.delete key (cache_manager s))) = PNone
          \<and> cache_exists (at_cache_get clk) key (cache_manager s) = (False, cache_manager s))
       \<and> (\<not> truthy (entry_value e) \<longrightarrow>
            make_request rnd tr clk ''GET'' endpoint data params (Some key) ttl s
              = upstream_call rnd tr clk ''GET'' endpoint data params (Some key) ttl s
          \<and> (fst (acquire rnd 1 (at_acquire clk) (rate_limiter s)) = Returned () \<longrightarrow>
                requests_sent (snd (make_request rnd tr clk ''GET'' endpoint data params (Some key) ttl s))
                  = requests_sent s @ [\<lparr>req_method = ''GET'', req_url = api_base_url s @ endpoint,
                                        req_json = data, req_params = params\<rparr>]
              \<and> fst (make_request rnd tr clk ''GET'' endpoint data params (Some key) ttl s)
                  = (case tr (requests_sent s)
                            \<lparr>req_method = ''GET'', req_url = api_base_url s @ endpoint,
                             req_json = data, req_params = params\<rparr> of
                       Inl x \<Rightarrow> Raised OpenTextAPIError
                     | Inr (status, body) \<Rightarrow>
                         if 400 \<le> status then Raised OpenTextAPIError else Returned body)))"
proof (intro conjI impI)
  assume none: "entry_value e = PNone"
  show "cache_get (at_cache_get clk) key (cache_manager s) = (PNone, cache_manager s)"
    using cache_get_live [OF assms(1) assms(2)] none by simp
  then show "cache_exists (at_cache_get clk) key (cache_manager s) = (False, cache_manager s)"
    by (simp add: cache_exists_def)
  show "fst (cache_get (at_cache_get clk) key (AList.delete key (cache_manager s))) = PNone"
    by (simp add: cache_get_missing delete_conv')
next
  assume falsy: "\<not> truthy (entry_value e)"
  show eq: "make_request rnd tr clk ''GET'' endpoint data params (Some key) ttl s
              = upstream_call rnd tr clk ''GET'' endpoint data params (Some key) ttl s"
    using cache_get_live [OF assms(1) assms(2)] falsy assms(3)
    by (simp add: make_request_def)
  assume acq: "fst (acquire rnd 1 (at_acquire clk) (rate_limiter s)) = Returned ()"
  show "requests_sent (snd (make_request rnd tr clk ''GET'' endpoint data params (Some key) ttl s))
                  = requests_sent s @ [\<lparr>req_method = ''GET'', req_url = api_base_url s @ endpoint,
                                        req_json = data, req_params = params\<rparr>]"
    unfolding eq using upstream_call_sends [OF acq] by blast
  show "fst (make_request rnd tr clk ''GET'' endpoint data params (Some key) ttl s)
                  = (case tr (requests_sent s)
                            \<lparr>req_method = ''GET'', req_url = api_base_url s @ endpoint,
                             req_json = data, req_params = params\<rparr> of
                       Inl x \<Rightarrow> Raised OpenTextAPIError
                     | Inr (status, body) \<Rightarrow>
                         if 400 \<le> status then Raised OpenTextAPIError else Returned body)"
    unfolding eq using upstream_call_sends [OF acq] by blast
qed

theorem falsy_cache_entry_is_a_miss_witness:
  "cache_get 100 ''account:7'' [(''account:7'', \<lparr>entry_value = PNone, expires_at = 600\<rparr>)]
     = (PNone, [(''account:7'', \<lparr>entry_value = PNone, expires_at = 600\<rparr>)])
   \<and> cache_exists 100 ''account:7'' [(''account:7'', \<lparr>entry_value = PNone, expires_at = 600\<rparr>)]
     = (False, [(''account:7'', \<lparr>entry_value = PNone, expires_at = 600\<rparr>)])
   \<and> make_request Finite (\<lambda>sent req. Inr (200, PDict [(''account_id'', PStr ''7'')]))
        \<lparr>at_cache_get = 100, at_acquire = [], at_cache_set = 101\<rparr>
        ''GET'' ''/accounts/7'' PNone PNone (Some ''account:7'') 600
        \<lparr>api_base_url = ''https://api'', rate_limiter = \<lparr>requests_per_second = Finite 10, max_tokens = 10, current_tokens = 10,
                          last_refill = None\<rparr>,
         cache_manager = [(''account:7'', \<lparr>entry_value = PDict [], expires_at = 600\<rparr>)],
         requests_sent = []\<rparr>
     = (Returned (PDict [(''account_id'', PStr ''7'')]),
        \<lparr>api_base_url = ''https://api'',
         rate_limiter = \<lparr>requests_per_second = Finite 10, max_tokens = 10, current_tokens = 9,
                          last_refill = None\<rparr>,
         cache_manager = [(''account:7'', \<lparr>entry_value = PDict [(''account_id'', PStr ''7'')],
                                            expires_at = 701\<rparr>)],
         requests_sent = [\<lparr>req_method = ''GET'', req_url = ''https://api/accounts/7'',
                            req_json = PNone, req_params = PNone\<rparr>]\<rparr>)"
  using falsy_cache_entry_is_a_miss [of
      "\<lparr>api_base_url = ''https://api'', rate_limiter = \<lparr>requests_per_second = Finite 10, max_tokens = 10, current_tokens = 10,
                          last_refill = None\<rparr>,
         cache_manager = [(''account:7'', \<lparr>entry_value = PNone, expires_at = 600\<rparr>)],
         requests_sent = []\<rparr>"
      "''account:7''" "\<lparr>entry_value = PNone, expires_at = 600\<rparr>"
      "\<lparr>at_cache_get = 100, at_acquire = [], at_cache_set = 101\<rparr>" Finite
      "\<lambda>sent req. Inr (200, PDict [(''account_id'', PStr ''7'')])" "''/accounts/7''" PNone PNone 600]
    falsy_cache_entry_is_a_miss [of
      "\<lparr>api_base_url = ''https://api'', rate_limiter = \<lparr>requests_per_second = Finite 10, max_tokens = 10, current_tokens = 10,
                          last_refill = None\<rparr>,
         cache_manager = [(''account:7'', \<lparr>entry_value = PDict [], expires_at = 600\<rparr>)],
         requests_sent = []\<rparr>"
      "''account:7''" "\<lparr>entry_value = PDict [], expires_at = 600\<rparr>"
      "\<lparr>at_cache_get = 100, at_acquire = [], at_cache_set = 101\<rparr>" Finite
      "\<lambda>sent req. Inr (200, PDict [(''account_id'', PStr ''7'')])" "''/accounts/7''" PNone PNone 600]
  by (simp add: upstream_call_def acquire_enough Let_def caching_key_def cache_set_def)
section \<open>Properties of the batch operations\<close>

lemma gather_fst_snd:
  "gather task (x # xs) s
     = (fst (task x s) # fst (gather task xs (snd (task x s))), snd (gather task xs (snd (task x s))))"
  by (simp split: prod.splits)

lemma gather_append:
  "gather task (xs @ ys) s
     = (fst (gather task xs s) @ fst (gather task ys (snd (gather task xs s))),
        snd (gather task ys (snd (gather task xs s))))"
proof (induction xs arbitrary: s)
  case Nil
  show ?case by simp
next
  case (Cons x xs)
  show ?case
    unfolding append_Cons gather_fst_snd Cons.IH by simp
qed

lemma length_gather: "length (fst (gather task xs s)) = length xs"
  by (induction xs arbitrary: s) (simp_all add: gather_fst_snd del: gather.simps(2))

lemma successes_simps [simp]:
  "successes [] = []"
  "successes (Inr (Some a) # rs) = a # successes rs"
  "successes (Inr None # rs) = successes rs"
  "successes (Inl e # rs) = successes rs"
  by (simp_all add: successes_def)

lemma successes_append: "successes (xs @ ys) = successes xs @ successes ys"
  by (simp add: successes_def map_filter_def)

lemma collect_successes: "collect rs acc = acc @ successes rs"
  by (induction rs acc rule: collect.induct) simp_all

lemma successes_failures: "length (successes rs) + length (failures rs) = length rs"
proof (induction rs)
  case Nil
  show ?case by (simp add: failures_def)
next
  case (Cons r rs)
  then show ?case
    by (cases r rule: succeeded.cases) (simp_all add: failures_def)
qed

lemma batch_loop_append:
  "batch_loop task bs ids (is1 @ is2) acc s
     = batch_loop task bs ids is2 (fst (batch_loop task bs ids is1 acc s))
         (snd (batch_loop task bs ids is1 acc s))"
  by (induction is1 arbitrary: acc s) (simp_all add: Let_def split: prod.splits)

lemma batch_loop_prefix:
  "batch_loop task bs ids (map (\<lambda>k. k * bs) [0..<m]) acc s
     = (acc @ successes (fst (gather task (take (m * bs) ids) s)),
        snd (gather task (take (m * bs) ids) s))"
proof (induction m)
  case 0
  show ?case by simp
next
  case (Suc m)
  have "Suc m * bs = m * bs + bs" by simp
  then have take: "take (Suc m * bs) ids = take (m * bs) ids @ take bs (drop (m * bs) ids)"
    by (simp only: take_add)
  show ?case
    unfolding take gather_append
    by (simp add: batch_loop_append Suc.IH Let_def collect_successes successes_append
        split: prod.splits)
qed

lemma chunks_cover: "0 < bs \<Longrightarrow> n \<le> ((n + bs - 1) div bs) * (bs::nat)"
proof -
  assume "0 < bs"
  have "(n + bs - 1) = ((n + bs - 1) div bs) * bs + (n + bs - 1) mod bs" by simp
  moreover have "(n + bs - 1) mod bs < bs" using \<open>0 < bs\<close> by simp
  ultimately show ?thesis by linarith
qed

lemma batch_loop_all:
  assumes "0 < batch_size"
  shows "py_range (length ids) batch_size
           = Inr (map (\<lambda>k. k * nat batch_size) [0..<(length ids + nat batch_size - 1) div nat batch_size])
       \<and> batch_loop task (nat batch_size) ids
            (map (\<lambda>k. k * nat batch_size) [0..<(length ids + nat batch_size - 1) div nat batch_size]) [] s
           = (successes (fst (gather task ids s)), snd (gather task ids s))"
proof -
  have "length ids \<le> ((length ids + nat batch_size - 1) div nat batch_size) * nat batch_size"
    using assms by (intro chunks_cover) simp
  then have "take (((length ids + nat batch_size - 1) div nat batch_size) * nat batch_size) ids = ids"
    by simp
  then show ?thesis
    using assms by (simp add: py_range_def batch_loop_prefix)
qed

lemma get_accounts_batch_eq:
  "0 < batch_size \<Longrightarrow>
     get_accounts_batch task batch_size ids s
       = (Inr (successes (fst (gather task ids s))), snd (gather task ids s))"
  using batch_loop_all [of batch_size ids task s] by (simp add: get_accounts_batch_def)

lemma batch_porting_status_eq:
  "0 < batch_size \<Longrightarrow>
     batch_porting_status task batch_size ids s
       = (Inr (successes (fst (gather task ids s))), snd (gather task ids s))"
  using batch_loop_all [of batch_size ids task s] by (simp add: batch_porting_status_def)

lemma sync_fax_usage_eq:
  "0 < batch_size \<Longrightarrow>
     sync_fax_usage task batch_size ids d1 d2 s
       = (Inr (successes (fst (gather (\<lambda>i. task i d1 d2) ids s))),
          snd (gather (\<lambda>i. task i d1 d2) ids s))"
  using batch_loop_all [of batch_size ids "\<lambda>i. task i d1 d2" s] by (simp add: sync_fax_usage_def)

lemma gather_traced:
  "gather (traced task) ids (s, started)
     = (fst (gather task ids s), (snd (gather task ids s), started @ ids))"
proof (induction ids arbitrary: s started)
  case Nil
  show ?case by simp
next
  case (Cons x xs)
  show ?case
    unfolding gather_fst_snd
    by (simp add: traced_def Cons.IH split: prod.splits)
qed

text \<open>
  Claim C1, as the code has it. With a positive batch size, each of the three batch
  operations returns the records of the items whose task returned one, in input order,
  and nothing for the others: an item whose task returned \<open>None\<close> or raised is left out.
  Every item has exactly one outcome, so the length of the result is the length of the
  input less the number of failed items.
\<close>

theorem batch_returns_successes_only:
  assumes "0 < batch_size"
  shows "get_accounts_batch task batch_size ids s
           = (Inr (successes (fst (gather task ids s))), snd (gather task ids s))
       \<and> sync_fax_usage usage_task batch_size ids start_date end_date s
           = (Inr (successes (fst (gather (\<lambda>i. usage_task i start_date end_date) ids s))),
              snd (gather (\<lambda>i. usage_task i start_date end_date) ids s))
       \<and> batch_porting_status task batch_size ids s
           = (Inr (successes (fst (gather task ids s))), snd (gather task ids s))
       \<and> length (successes (fst (gather task ids s))) + length (failures (fst (gather task ids s)))
           = length ids"
  using assms
  by (simp add: get_accounts_batch_eq sync_fax_usage_eq batch_porting_status_eq
      successes_failures length_gather)

text \<open>
  Claim C1 as stated fails: of 10 items in batches of 3, with the task of item 4 failing,
  the result has 9 elements.
\<close>

theorem batch_omits_failures_counterexample:
  "get_accounts_batch (\<lambda>i s. (if i = 4 then Inr None else Inr (Some i), s)) 3
      [1, 2, 3, 4, 5, 6, 7, 8, 9, 10::nat] ()
     = (Inr [1, 2, 3, 5, 6, 7, 8, 9, 10], ())
   \<and> length [1, 2, 3, 5, 6, 7, 8, 9, 10::nat] < length [1, 2, 3, 4, 5, 6, 7, 8, 9, 10::nat]"
  by (simp add: get_accounts_batch_eq)

theorem batch_returns_successes_only_witness:
  "(0::int) < 3
   \<and> get_accounts_batch (\<lambda>i s. (if i = 4 then Inl OtherException else Inr (Some i), s)) 3
        [1, 2, 3, 4, 5, 6, 7, 8, 9, 10::nat] ()
       = (Inr [1, 2, 3, 5, 6, 7, 8, 9, 10], ())
   \<and> length (failures (fst (gather (\<lambda>i s. (if i = 4 then Inl OtherException else Inr (Some i), s))
        [1, 2, 3, 4, 5, 6, 7, 8, 9, 10::nat] ()))) = 1"
  using batch_returns_successes_only [of 3 "\<lambda>i s. (if i = 4 then Inl OtherException else Inr (Some i), s)"
      "[1, 2, 3, 4, 5, 6, 7, 8, 9, 10::nat]" "()" "\<lambda>i d1 d2 s. (Inr None, s)" "()" "()"]
  by (auto simp: failures_def)

text \<open>
  Claim C6. With a positive batch size, every item of the input is started, once and in
  input order, whatever the other tasks give: the log of a traced run is the input list.
  The operation returns normally, there is one outcome per item, and the record of every
  task that succeeded is in the result. A task that returned \<open>None\<close> or raised changes
  neither the tasks of its own batch nor those of later batches.
\<close>

theorem failures_do_not_abort:
  assumes "0 < batch_size"
  shows "get_accounts_batch (traced task) batch_size ids (s, [])
           = (Inr (successes (fst (gather task ids s))), (snd (gather task ids s), ids))
       \<and> sync_fax_usage (\<lambda>i d1 d2. traced (\<lambda>j. usage_task j d1 d2) i) batch_size ids start_date end_date (s, [])
           = (Inr (successes (fst (gather (\<lambda>i. usage_task i start_date end_date) ids s))),
              (snd (gather (\<lambda>i. usage_task i start_date end_date) ids s), ids))
       \<and> batch_porting_status (traced task) batch_size ids (s, [])
           = (Inr (successes (fst (gather task ids s))), (snd (gather task ids s), ids))
       \<and> length (fst (gather task ids s)) = length ids"
  using assms
  by (simp add: get_accounts_batch_eq sync_fax_usage_eq batch_porting_status_eq gather_traced
      length_gather)

theorem failures_do_not_abort_witness:
  "(0::int) < 2
   \<and> get_accounts_batch
        (traced (\<lambda>i s. (if i = 2 then Inr None else if i = 4 then Inl OtherException else Inr (Some (10 * i)), s)))
        2 [1, 2, 3, 4, 5::nat] ((), [])
       = (Inr [10, 30, 50], ((), [1, 2, 3, 4, 5]))"
  using failures_do_not_abort [of 2
      "\<lambda>i s. (if i = 2 then Inr None else if i = 4 then Inl OtherException else Inr (Some (10 * i)), s)"
      "[1, 2, 3, 4, 5::nat]" "()" "\<lambda>i d1 d2 s. (Inr None, s)" "()" "()"]
  by auto

end
